theory Spec2Isabelle
  imports Main
begin

section \<open>JavaScript values of the stored configuration\<close>

text \<open>
  The configuration document reaches the panel as parsed JSON, so a stored override can be
  any JSON value. \<open>JUndefined\<close> is the result of reading a key that is absent. Numbers
  carry an integer payload: the code observes only whether a number is zero.
\<close>

datatype jsval =
    JUndefined
  | JNull
  | JBool bool
  | JNum int
  | JStr string
  | JArr "jsval list"
  | JObj "(string \<times> jsval) list"

datatype js_error = TypeError

text \<open>Truthiness, as tested by \<^verbatim>\<open>!override\<close> and \<^verbatim>\<open>a || b\<close>.\<close>

fun truthy :: "jsval \<Rightarrow> bool" where
  "truthy JUndefined = False"
| "truthy JNull = False"
| "truthy (JBool b) = b"
| "truthy (JNum n) = (n \<noteq> 0)"
| "truthy (JStr s) = (s \<noteq> [])"
| "truthy (JArr xs) = True"
| "truthy (JObj kvs) = True"

fun typeof :: "jsval \<Rightarrow> string" where
  "typeof JUndefined = ''undefined''"
| "typeof JNull = ''object''"
| "typeof (JBool b) = ''boolean''"
| "typeof (JNum n) = ''number''"
| "typeof (JStr s) = ''string''"
| "typeof (JArr xs) = ''object''"
| "typeof (JObj kvs) = ''object''"

text \<open>
  The expression \<^verbatim>\<open>'expose' in v\<close>. The operator raises a TypeError when its right
  operand is not an object; an array has index keys and \<^verbatim>\<open>length\<close> only.
\<close>

fun expose_in :: "jsval \<Rightarrow> js_error + bool" where
  "expose_in (JObj kvs) = Inr (''expose'' \<in> fst ` set kvs)"
| "expose_in (JArr xs) = Inr False"
| "expose_in v = Inl TypeError"

text \<open>
  Reading a data property \<^verbatim>\<open>v.key\<close> (for the keys \<^verbatim>\<open>expose\<close> and
  \<^verbatim>\<open>source\<close>, which no prototype defines): a TypeError on \<^verbatim>\<open>null\<close> and
  \<^verbatim>\<open>undefined\<close>, \<^verbatim>\<open>undefined\<close> when the key is absent.
\<close>

fun get_field :: "string \<Rightarrow> jsval \<Rightarrow> js_error + jsval" where
  "get_field k (JObj kvs) = Inr (case map_of kvs k of None \<Rightarrow> JUndefined | Some v \<Rightarrow> v)"
| "get_field k JUndefined = Inl TypeError"
| "get_field k JNull = Inl TypeError"
| "get_field k v = Inr JUndefined"

text \<open>
  Strict equality \<^verbatim>\<open>===\<close>. Primitives compare by value. Objects and arrays compare by
  reference; the values compared by the panel are distinct nodes of one parsed document, so
  two of them are never the same reference.
\<close>

fun strict_eq :: "jsval \<Rightarrow> jsval \<Rightarrow> bool" where
  "strict_eq JUndefined JUndefined = True"
| "strict_eq JNull JNull = True"
| "strict_eq (JBool a) (JBool b) = (a = b)"
| "strict_eq (JNum a) (JNum b) = (a = b)"
| "strict_eq (JStr a) (JStr b) = (a = b)"
| "strict_eq a b = False"

section \<open>Data model\<close>

text \<open>The normalized override \<^verbatim>\<open>{ expose, source }\<close> returned by the getters.\<close>

record override_info =
  expose :: jsval
  source :: jsval

text \<open>An entry of \<^verbatim>\<open>entity_config\<close>; an absent field is \<open>None\<close>.\<close>

record entity_cfg =
  cfg_name :: "string option"
  cfg_aliases :: "string list option"
  cfg_room :: "string option"

text \<open>An entity of the registry snapshot; \<^verbatim>\<open>device_id\<close> and \<^verbatim>\<open>name\<close> may be null.\<close>

record entity =
  entity_id :: string
  device_id :: "string option"
  name :: "string option"

text \<open>
  The configuration document. A missing \<^verbatim>\<open>entity_overrides\<close>,
  \<^verbatim>\<open>device_overrides\<close> or \<^verbatim>\<open>entity_config\<close> object reads as the empty
  map, a missing filter list as the empty list, a missing \<^verbatim>\<open>settings.auto_aliases\<close>
  as \<open>JUndefined\<close>.
\<close>

record config =
  entity_overrides :: "string \<rightharpoonup> jsval"
  device_overrides :: "string \<rightharpoonup> jsval"
  entity_config :: "string \<rightharpoonup> entity_cfg"
  filtered_entities :: "string list"
  filtered_devices :: "string list"
  auto_aliases :: jsval

text \<open>
  The fields of the panel component that the override logic reads and writes:
  \<^verbatim>\<open>_entities\<close>, \<^verbatim>\<open>_pendingConfig\<close>, \<^verbatim>\<open>_hasChanges\<close> and
  \<^verbatim>\<open>_preview.exposed\<close> (\<open>None\<close> when there is no preview or no list in it).
\<close>

record panel =
  entities :: "entity list"
  pendingConfig :: config
  hasChanges :: bool
  preview_exposed :: "string list option"

section \<open>Override normalization\<close>

definition getEntityOverrideInfo :: "panel \<Rightarrow> string \<Rightarrow> js_error + override_info option" where
  "getEntityOverrideInfo p entityId =
    (let override = (case entity_overrides (pendingConfig p) entityId of
                       None \<Rightarrow> JUndefined | Some v \<Rightarrow> v)
     in if \<not> truthy override then Inr None
        else case (if typeof override = ''object'' then expose_in override else Inr False) of
            Inl err \<Rightarrow> Inl err
          | Inr True \<Rightarrow>
              (case get_field ''expose'' override of
                 Inl err \<Rightarrow> Inl err
               | Inr ex \<Rightarrow>
                  (case get_field ''source'' override of
                     Inl err \<Rightarrow> Inl err
                   | Inr src \<Rightarrow>
                       Inr (Some \<lparr>expose = ex,
                                  source = (if truthy src then src else JStr ''selected'')\<rparr>)))
          | Inr False \<Rightarrow>
              if typeof override = ''boolean''
              then Inr (Some \<lparr>expose = override, source = JStr ''selected''\<rparr>)
              else Inr None)"

definition getDeviceOverrideInfo :: "panel \<Rightarrow> string \<Rightarrow> js_error + override_info option" where
  "getDeviceOverrideInfo p deviceId =
    (let override = (case device_overrides (pendingConfig p) deviceId of
                       None \<Rightarrow> JUndefined | Some v \<Rightarrow> v)
     in if \<not> truthy override then Inr None
        else case (if typeof override = ''object'' then expose_in override else Inr False) of
            Inl err \<Rightarrow> Inl err
          | Inr True \<Rightarrow>
              (case get_field ''expose'' override of
                 Inl err \<Rightarrow> Inl err
               | Inr ex \<Rightarrow>
                  (case get_field ''source'' override of
                     Inl err \<Rightarrow> Inl err
                   | Inr src \<Rightarrow>
                       Inr (Some \<lparr>expose = ex,
                                  source = (if truthy src then src else JStr ''selected'')\<rparr>)))
          | Inr False \<Rightarrow>
              if typeof override = ''boolean''
              then Inr (Some \<lparr>expose = override, source = JStr ''selected''\<rparr>)
              else Inr None)"

section \<open>Filters\<close>

definition isEntityFiltered :: "panel \<Rightarrow> string \<Rightarrow> bool" where
  "isEntityFiltered p entityId = (entityId \<in> set (filtered_entities (pendingConfig p)))"

definition isDeviceFiltered :: "panel \<Rightarrow> string \<Rightarrow> bool" where
  "isDeviceFiltered p deviceId = (deviceId \<in> set (filtered_devices (pendingConfig p)))"

section \<open>Propagation between a device and its entities\<close>

text \<open>The stored object \<^verbatim>\<open>{ expose, source }\<close> written by the setters.\<close>

definition stored :: "jsval \<Rightarrow> string \<Rightarrow> jsval" where
  "stored ex src = JObj [(''expose'', ex), (''source'', JStr src)]"

text \<open>
  The loop of \<^verbatim>\<open>_propagateDeviceToEntities\<close> over the entities of the device. The
  current override of each entity is read from the pending configuration, which the loop
  does not change; the writes go to the copy \<open>overrides\<close>.
\<close>

fun propagate_loop ::
  "panel \<Rightarrow> jsval \<Rightarrow> entity list \<Rightarrow> (string \<rightharpoonup> jsval) \<Rightarrow> js_error + (string \<rightharpoonup> jsval)"
where
  "propagate_loop p ex [] overrides = Inr overrides"
| "propagate_loop p ex (e # es) overrides =
    (if isEntityFiltered p (entity_id e) then propagate_loop p ex es overrides
     else case getEntityOverrideInfo p (entity_id e) of
         Inl err \<Rightarrow> Inl err
       | Inr currentOverride \<Rightarrow>
           if ex = JNull then
             (if (case currentOverride of None \<Rightarrow> False
                                        | Some i \<Rightarrow> source i = JStr ''implied'')
              then propagate_loop p ex es (overrides(entity_id e := None))
              else propagate_loop p ex es overrides)
           else
             (if (case currentOverride of None \<Rightarrow> True
                                        | Some i \<Rightarrow> source i = JStr ''implied'')
              then propagate_loop p ex es (overrides(entity_id e \<mapsto> stored ex ''implied''))
              else propagate_loop p ex es overrides))"

definition propagateDeviceToEntities ::
  "panel \<Rightarrow> string \<Rightarrow> jsval \<Rightarrow> string \<Rightarrow> js_error + panel"
where
  "propagateDeviceToEntities p deviceId ex deviceSource =
    (let deviceEntities = filter (\<lambda>e. device_id e = Some deviceId) (entities p)
     in case propagate_loop p ex deviceEntities (entity_overrides (pendingConfig p)) of
          Inl err \<Rightarrow> Inl err
        | Inr overrides \<Rightarrow>
            Inr (p\<lparr>pendingConfig := (pendingConfig p)\<lparr>entity_overrides := overrides\<rparr>\<rparr>))"

text \<open>
  The loop of \<^verbatim>\<open>_recalculateDeviceState\<close>; the state is
  \<open>(allSelected, allSameValue, firstValue)\<close>, and a \<^verbatim>\<open>break\<close> returns it at once.
\<close>

fun recalc_loop ::
  "panel \<Rightarrow> entity list \<Rightarrow> bool \<times> bool \<times> jsval \<Rightarrow> js_error + (bool \<times> bool \<times> jsval)"
where
  "recalc_loop p [] st = Inr st"
| "recalc_loop p (e # es) (allSelected, allSameValue, firstValue) =
    (case getEntityOverrideInfo p (entity_id e) of
       Inl err \<Rightarrow> Inl err
     | Inr None \<Rightarrow> Inr (False, allSameValue, firstValue)
     | Inr (Some i) \<Rightarrow>
         if source i \<noteq> JStr ''selected'' then Inr (False, allSameValue, firstValue)
         else if firstValue = JNull then recalc_loop p es (allSelected, allSameValue, expose i)
         else if \<not> strict_eq (expose i) firstValue then Inr (allSelected, False, firstValue)
         else recalc_loop p es (allSelected, allSameValue, firstValue))"

definition activeEntities :: "panel \<Rightarrow> string \<Rightarrow> entity list" where
  "activeEntities p deviceId =
    filter (\<lambda>e. \<not> isEntityFiltered p (entity_id e))
      (filter (\<lambda>e. device_id e = Some deviceId) (entities p))"

definition recalculateDeviceState :: "panel \<Rightarrow> string \<Rightarrow> js_error + panel" where
  "recalculateDeviceState p deviceId =
    (if activeEntities p deviceId = [] then Inr p
     else case getDeviceOverrideInfo p deviceId of
         Inl err \<Rightarrow> Inl err
       | Inr deviceOverride \<Rightarrow>
           if (case deviceOverride of None \<Rightarrow> False | Some i \<Rightarrow> source i = JStr ''selected'')
           then Inr p
           else
            (case recalc_loop p (activeEntities p deviceId) (True, True, JNull) of
               Inl err \<Rightarrow> Inl err
             | Inr (allSelected, allSameValue, firstValue) \<Rightarrow>
                 let overrides = device_overrides (pendingConfig p);
                     overrides' =
                       (if allSelected \<and> allSameValue \<and> firstValue \<noteq> JNull
                        then overrides(deviceId \<mapsto> stored firstValue ''implied'')
                        else if (case deviceOverride of None \<Rightarrow> False
                                   | Some i \<Rightarrow> source i = JStr ''implied'')
                        then overrides(deviceId := None)
                        else overrides)
                 in Inr (p\<lparr>pendingConfig :=
                           (pendingConfig p)\<lparr>device_overrides := overrides'\<rparr>\<rparr>)))"

section \<open>Setting an override\<close>

text \<open>
  \<^verbatim>\<open>_setEntityOverride(entityId, expose, source)\<close>; \<open>JNull\<close> for \<open>ex\<close> clears
  the entry. The owning device is the \<^verbatim>\<open>device_id\<close> of the first entity with this
  identifier; it is recomputed when it is truthy.
\<close>

definition setEntityOverride :: "panel \<Rightarrow> string \<Rightarrow> jsval \<Rightarrow> string \<Rightarrow> js_error + panel" where
  "setEntityOverride p entityId ex src =
    (let overrides = entity_overrides (pendingConfig p);
         overrides' = (if ex = JNull then overrides(entityId := None)
                       else overrides(entityId \<mapsto> stored ex src));
         p1 = p\<lparr>pendingConfig := (pendingConfig p)\<lparr>entity_overrides := overrides'\<rparr>\<rparr>
     in case (case find (\<lambda>e. entity_id e = entityId) (entities p1) of
                None \<Rightarrow> Inr p1
              | Some e \<Rightarrow>
                 (case device_id e of
                    None \<Rightarrow> Inr p1
                  | Some d \<Rightarrow> if d \<noteq> [] then recalculateDeviceState p1 d else Inr p1)) of
          Inl err \<Rightarrow> Inl err
        | Inr p2 \<Rightarrow> Inr (p2\<lparr>hasChanges := True\<rparr>))"

definition setDeviceOverride :: "panel \<Rightarrow> string \<Rightarrow> jsval \<Rightarrow> string \<Rightarrow> js_error + panel" where
  "setDeviceOverride p deviceId ex src =
    (let overrides = device_overrides (pendingConfig p);
         overrides' = (if ex = JNull then overrides(deviceId := None)
                       else overrides(deviceId \<mapsto> stored ex src));
         p1 = p\<lparr>pendingConfig := (pendingConfig p)\<lparr>device_overrides := overrides'\<rparr>\<rparr>
     in case propagateDeviceToEntities p1 deviceId ex src of
          Inl err \<Rightarrow> Inl err
        | Inr p2 \<Rightarrow> Inr (p2\<lparr>hasChanges := True\<rparr>))"

section \<open>Button actions\<close>

text \<open>The buttons of a row pass \<^verbatim>\<open>true\<close> or \<^verbatim>\<open>false\<close> as the target.\<close>

definition handleEntityButtonClick :: "panel \<Rightarrow> string \<Rightarrow> bool \<Rightarrow> js_error + panel" where
  "handleEntityButtonClick p entityId targetExpose =
    (case getEntityOverrideInfo p entityId of
       Inl err \<Rightarrow> Inl err
     | Inr currentOverride \<Rightarrow>
         if (case currentOverride of
               None \<Rightarrow> False
             | Some i \<Rightarrow> strict_eq (expose i) (JBool targetExpose) \<and> source i = JStr ''selected'')
         then setEntityOverride p entityId JNull ''selected''
         else setEntityOverride p entityId (JBool targetExpose) ''selected'')"

definition handleDeviceButtonClick :: "panel \<Rightarrow> string \<Rightarrow> bool \<Rightarrow> js_error + panel" where
  "handleDeviceButtonClick p deviceId targetExpose =
    (case getDeviceOverrideInfo p deviceId of
       Inl err \<Rightarrow> Inl err
     | Inr currentOverride \<Rightarrow>
         if (case currentOverride of
               None \<Rightarrow> False
             | Some i \<Rightarrow> strict_eq (expose i) (JBool targetExpose) \<and> source i = JStr ''selected'')
         then setDeviceOverride p deviceId JNull ''selected''
         else setDeviceOverride p deviceId (JBool targetExpose) ''selected'')"

text \<open>A sequence of button actions, stopping at the first error.\<close>

datatype edit = EntityClick string bool | DeviceClick string bool

fun apply_edit :: "panel \<Rightarrow> edit \<Rightarrow> js_error + panel" where
  "apply_edit p (EntityClick entityId b) = handleEntityButtonClick p entityId b"
| "apply_edit p (DeviceClick deviceId b) = handleDeviceButtonClick p deviceId b"

fun apply_edits :: "panel \<Rightarrow> edit list \<Rightarrow> js_error + panel" where
  "apply_edits p [] = Inr p"
| "apply_edits p (x # xs) =
    (case apply_edit p x of Inl err \<Rightarrow> Inl err | Inr p' \<Rightarrow> apply_edits p' xs)"

section \<open>String operations of the alias generator\<close>

text \<open>
  Strings are lists of characters. \<^verbatim>\<open>toLowerCase\<close> and the case-insensitive match
  of a regular expression are modelled on the ASCII letters; other characters are left as
  they are.
\<close>

definition lower_char :: "char \<Rightarrow> char" where
  "lower_char c =
    (let n = (of_char c :: nat) in if 65 \<le> n \<and> n \<le> 90 then char_of (n + 32) else c)"

definition toLowerCase :: "string \<Rightarrow> string" where
  "toLowerCase s = map lower_char s"

definition endsWith :: "string \<Rightarrow> string \<Rightarrow> bool" where
  "endsWith s suf = (length suf \<le> length s \<and> drop (length s - length suf) s = suf)"

definition startsWith :: "string \<Rightarrow> string \<Rightarrow> bool" where
  "startsWith s pre = (take (length pre) s = pre)"

text \<open>\<^verbatim>\<open>s.slice(0, -n)\<close>: the string without its last \<open>n\<close> characters.\<close>

definition slice_end :: "string \<Rightarrow> nat \<Rightarrow> string" where
  "slice_end s n = take (length s - n) s"

text \<open>\<^verbatim>\<open>s.includes(sub)\<close>.\<close>

fun str_includes :: "string \<Rightarrow> string \<Rightarrow> bool" where
  "str_includes [] sub = (sub = [])"
| "str_includes (c # cs) sub = (startsWith (c # cs) sub \<or> str_includes cs sub)"

text \<open>The white space matched by \<^verbatim>\<open>\s\<close>, among the ASCII characters.\<close>

definition is_space :: "char \<Rightarrow> bool" where
  "is_space c = ((of_char c :: nat) \<in> {9, 10, 11, 12, 13, 32})"

text \<open>
  \<^verbatim>\<open>s.split(/\s+/)\<close>: the pieces between the runs of white space; \<open>cur\<close> is the
  current piece, reversed, and \<open>in_run\<close> says that a run has begun. A string that starts
  or ends with white space has an empty first or last piece.
\<close>

fun split_ws_from :: "string \<Rightarrow> bool \<Rightarrow> string \<Rightarrow> string list" where
  "split_ws_from cur in_run [] = [rev cur]"
| "split_ws_from cur in_run (c # cs) =
    (if is_space c then
       (if in_run then split_ws_from cur True cs else rev cur # split_ws_from [] True cs)
     else split_ws_from (c # cur) False cs)"

definition split_ws :: "string \<Rightarrow> string list" where
  "split_ws s = split_ws_from [] False s"

text \<open>\<^verbatim>\<open>s.split(".")\<close>, for any separating character.\<close>

fun split_on_from :: "char \<Rightarrow> string \<Rightarrow> string \<Rightarrow> string list" where
  "split_on_from sep cur [] = [rev cur]"
| "split_on_from sep cur (c # cs) =
    (if c = sep then rev cur # split_on_from sep [] cs else split_on_from sep (c # cur) cs)"

definition split_on :: "char \<Rightarrow> string \<Rightarrow> string list" where
  "split_on sep s = split_on_from sep [] s"

text \<open>\<^verbatim>\<open>parts.join(" ")\<close>.\<close>

fun join_space :: "string list \<Rightarrow> string" where
  "join_space [] = []"
| "join_space [w] = w"
| "join_space (w # ws) = w @ '' '' @ join_space ws"

text \<open>
  \<^verbatim>\<open>s.replace(new RegExp(word, "i"), syn)\<close> for a \<open>word\<close> of letters and spaces and a
  replacement without \<^verbatim>\<open>$\<close>, as in the two tables: the first occurrence of
  \<open>word\<close>, whatever its case, is replaced.
\<close>

definition matches_here :: "string \<Rightarrow> string \<Rightarrow> bool" where
  "matches_here s word =
    (length word \<le> length s \<and> toLowerCase (take (length word) s) = toLowerCase word)"

fun replace_first :: "string \<Rightarrow> string \<Rightarrow> string \<Rightarrow> string" where
  "replace_first [] word syn = (if word = [] then syn else [])"
| "replace_first (c # cs) word syn =
    (if matches_here (c # cs) word then syn @ drop (length word) (c # cs)
     else c # replace_first cs word syn)"

section \<open>Alias suggestions\<close>

definition pluralize :: "string \<Rightarrow> string" where
  "pluralize word =
    (let lower = toLowerCase word in
     if endsWith lower ''y'' \<and>
        \<not> list_ex (\<lambda>v. endsWith lower v) [''ay'', ''ey'', ''iy'', ''oy'', ''uy'']
     then slice_end word 1 @ ''ies''
     else if endsWith lower ''s'' \<or> endsWith lower ''x'' \<or> endsWith lower ''ch'' \<or>
             endsWith lower ''sh''
     then word @ ''es''
     else if endsWith lower ''f'' then slice_end word 1 @ ''ves''
     else if endsWith lower ''fe'' then slice_end word 2 @ ''ves''
     else word @ ''s'')"

definition singularize :: "string \<Rightarrow> string" where
  "singularize word =
    (let lower = toLowerCase word in
     if endsWith lower ''ies'' then slice_end word 3 @ ''y''
     else if endsWith lower ''ves'' then slice_end word 3 @ ''f''
     else if endsWith lower ''es'' \<and>
             (endsWith lower ''sses'' \<or> endsWith lower ''xes'' \<or> endsWith lower ''ches'' \<or>
              endsWith lower ''shes'')
     then slice_end word 2
     else if endsWith lower ''s'' \<and> \<not> endsWith lower ''ss'' then slice_end word 1
     else word)"

definition WORD_SYNONYMS :: "(string \<times> string list) list" where
  "WORD_SYNONYMS =
    [(''light'', [''lamp'', ''lights'']),
     (''lamp'', [''light'', ''lamps'']),
     (''lights'', [''light'', ''lamps'']),
     (''fan'', [''fans'', ''ceiling fan'']),
     (''fans'', [''fan'', ''ceiling fans'']),
     (''switch'', [''switches'']),
     (''switches'', [''switch'']),
     (''outlet'', [''plug'', ''socket'']),
     (''plug'', [''outlet'', ''socket'']),
     (''tv'', [''television'', ''telly'', ''screen'']),
     (''television'', [''tv'', ''telly'']),
     (''ac'', [''air conditioner'', ''air conditioning'', ''cooling'']),
     (''air conditioner'', [''ac'', ''cooling'']),
     (''heater'', [''heating'', ''heat'']),
     (''heating'', [''heater'', ''heat'']),
     (''thermostat'', [''temperature'']),
     (''blind'', [''blinds'', ''shade'', ''shades'', ''window cover'']),
     (''blinds'', [''blind'', ''shades'', ''window covers'']),
     (''shade'', [''shades'', ''blind'', ''blinds'']),
     (''shades'', [''shade'', ''blinds'']),
     (''curtain'', [''curtains'', ''drapes'']),
     (''curtains'', [''curtain'', ''drapes'']),
     (''drape'', [''drapes'', ''curtains'']),
     (''drapes'', [''drape'', ''curtains'']),
     (''door'', [''doors'']),
     (''doors'', [''door'']),
     (''lock'', [''locks'', ''door lock'']),
     (''locks'', [''lock'', ''door locks'']),
     (''camera'', [''cameras'', ''cam'']),
     (''cameras'', [''camera'', ''cams'']),
     (''speaker'', [''speakers'', ''music'']),
     (''speakers'', [''speaker'']),
     (''vacuum'', [''vacuums'', ''robot vacuum'', ''roomba'']),
     (''roomba'', [''vacuum'', ''robot vacuum'']),
     (''garage'', [''garage door'']),
     (''garage door'', [''garage''])]"

definition ROOM_ALTERNATIVES :: "(string \<times> string list) list" where
  "ROOM_ALTERNATIVES =
    [(''living room'', [''front room'', ''lounge'', ''family room'']),
     (''family room'', [''living room'', ''lounge'']),
     (''lounge'', [''living room'', ''front room'']),
     (''bedroom'', [''bed room'']),
     (''bed room'', [''bedroom'']),
     (''bathroom'', [''bath'', ''washroom'', ''restroom'']),
     (''bath'', [''bathroom'']),
     (''master bedroom'', [''main bedroom'', ''primary bedroom'']),
     (''master bathroom'', [''main bathroom'', ''primary bathroom'']),
     (''kids room'', [''children'' @ [CHR 0x27] @ ''s room'', ''kid'' @ [CHR 0x27] @ ''s room'']),
     (''guest room'', [''spare room'', ''guest bedroom'']),
     (''spare room'', [''guest room'']),
     (''dining room'', [''dining area'']),
     (''back yard'', [''backyard'', ''garden'']),
     (''backyard'', [''back yard'', ''garden'']),
     (''front yard'', [''front garden'']),
     (''patio'', [''deck'', ''terrace'']),
     (''deck'', [''patio'', ''terrace'']),
     (''basement'', [''downstairs'']),
     (''upstairs'', [''second floor'', ''upper floor'']),
     (''downstairs'', [''first floor'', ''ground floor'', ''basement''])]"

text \<open>\<^verbatim>\<open>suggestions.add(x)\<close> on a Set, which keeps the order of insertion.\<close>

definition set_add :: "string list \<Rightarrow> string \<Rightarrow> string list" where
  "set_add xs x = (if x \<in> set xs then xs else xs @ [x])"

text \<open>One of the two loops over a table: every variation of every entry found in the name.\<close>

definition add_variations ::
  "(string \<times> string list) list \<Rightarrow> string \<Rightarrow> string list \<Rightarrow> string list"
where
  "add_variations table baseName suggestions =
    fold (\<lambda>(word, syns) acc.
            if str_includes (toLowerCase baseName) word
            then fold (\<lambda>syn acc'. set_add acc' (replace_first baseName word syn)) syns acc
            else acc)
      table suggestions"

definition generateAliasSuggestions :: "string \<Rightarrow> string list \<Rightarrow> nat \<Rightarrow> string list" where
  "generateAliasSuggestions baseName existingAliases maxSuggestions =
    (let existingLower = map toLowerCase existingAliases;
         lowerBaseName = toLowerCase baseName;
         words = split_ws baseName;
         lastWord = last words;
         pluralLast = pluralize lastWord;
         singularLast = singularize lastWord;
         s1 = (if toLowerCase pluralLast \<noteq> toLowerCase lastWord
               then set_add [] (join_space (butlast words @ [pluralLast])) else []);
         s2 = (if toLowerCase singularLast \<noteq> toLowerCase lastWord
               then set_add s1 (join_space (butlast words @ [singularLast])) else s1);
         s3 = add_variations WORD_SYNONYMS baseName s2;
         s4 = add_variations ROOM_ALTERNATIVES baseName s3;
         s5 = (if \<not> startsWith lowerBaseName ''the '' then set_add s4 (''the '' @ baseName)
               else set_add s4 (drop 4 baseName));
         filtered = filter (\<lambda>s. toLowerCase s \<noteq> lowerBaseName \<and>
                                 toLowerCase s \<notin> set existingLower) s5
     in take maxSuggestions filtered)"

section \<open>The auto-alias pass\<close>

text \<open>\<^verbatim>\<open>newConfig.entity_config[entityId] || {}\<close>.\<close>

definition config_or_empty :: "entity_cfg option \<Rightarrow> entity_cfg" where
  "config_or_empty r =
    (case r of None \<Rightarrow> \<lparr>cfg_name = None, cfg_aliases = None, cfg_room = None\<rparr>
             | Some e \<Rightarrow> e)"

text \<open>\<^verbatim>\<open>existingConfig.aliases && existingConfig.aliases.length > 0\<close>.\<close>

definition has_aliases :: "entity_cfg \<Rightarrow> bool" where
  "has_aliases e = (case cfg_aliases e of None \<Rightarrow> False | Some as \<Rightarrow> as \<noteq> [])"

text \<open>
  \<^verbatim>\<open>existingConfig.name || entity.name || entityId.split(".")[1].replace(/_/g, " ")\<close>.
  The last operand raises a TypeError when the identifier has no dot.
\<close>

definition baseName_of :: "entity_cfg \<Rightarrow> entity \<Rightarrow> string \<Rightarrow> js_error + string" where
  "baseName_of existingConfig ent entityId =
    (case cfg_name existingConfig of
       Some (c # cs) \<Rightarrow> Inr (c # cs)
     | _ \<Rightarrow>
        (case name ent of
           Some (c # cs) \<Rightarrow> Inr (c # cs)
         | _ \<Rightarrow>
            (case split_on (CHR ''.'') entityId of
               a # b # rest \<Rightarrow> Inr (map (\<lambda>x. if x = CHR ''_'' then CHR '' '' else x) b)
             | _ \<Rightarrow> Inl TypeError)))"

fun autoAliases_loop ::
  "panel \<Rightarrow> string list \<Rightarrow> (string \<rightharpoonup> entity_cfg) \<Rightarrow> js_error + (string \<rightharpoonup> entity_cfg)"
where
  "autoAliases_loop p [] ec = Inr ec"
| "autoAliases_loop p (entityId # rest) ec =
    (let existingConfig = config_or_empty (ec entityId) in
     if has_aliases existingConfig then autoAliases_loop p rest ec
     else case find (\<lambda>e. entity_id e = entityId) (entities p) of
         None \<Rightarrow> autoAliases_loop p rest ec
       | Some ent \<Rightarrow>
          (case baseName_of existingConfig ent entityId of
             Inl err \<Rightarrow> Inl err
           | Inr baseName \<Rightarrow>
               let suggestions = generateAliasSuggestions baseName [] 5 in
               if suggestions \<noteq> []
               then autoAliases_loop p rest
                      (ec(entityId \<mapsto> existingConfig\<lparr>cfg_aliases := Some suggestions\<rparr>))
               else autoAliases_loop p rest ec))"

text \<open>
  \<^verbatim>\<open>_applyAutoAliases(config)\<close>. The deep clone through JSON is the identity on the
  values of the model.
\<close>

definition applyAutoAliases :: "panel \<Rightarrow> config \<Rightarrow> js_error + config" where
  "applyAutoAliases p c =
    (if auto_aliases c = JBool False then Inr c
     else let exposedEntities = (case preview_exposed p of None \<Rightarrow> [] | Some xs \<Rightarrow> xs) in
       if exposedEntities = [] then Inr c
       else case autoAliases_loop p exposedEntities (entity_config c) of
           Inl err \<Rightarrow> Inl err
         | Inr ec \<Rightarrow> Inr (c\<lparr>entity_config := ec\<rparr>))"

section \<open>Reading the model\<close>

text \<open>
  The normalized override of an entity or a device, once the getters are known not to
  raise: \<open>None\<close> is the unset state.
\<close>

definition entityInfo :: "panel \<Rightarrow> string \<Rightarrow> override_info option" where
  "entityInfo p entityId =
    (case getEntityOverrideInfo p entityId of Inl err \<Rightarrow> None | Inr r \<Rightarrow> r)"

definition deviceInfo :: "panel \<Rightarrow> string \<Rightarrow> override_info option" where
  "deviceInfo p deviceId =
    (case getDeviceOverrideInfo p deviceId of Inl err \<Rightarrow> None | Inr r \<Rightarrow> r)"

definition is_selected :: "override_info option \<Rightarrow> bool" where
  "is_selected r = (case r of None \<Rightarrow> False | Some i \<Rightarrow> source i = JStr ''selected'')"

definition is_implied :: "override_info option \<Rightarrow> bool" where
  "is_implied r = (case r of None \<Rightarrow> False | Some i \<Rightarrow> source i = JStr ''implied'')"

definition selected_with :: "bool \<Rightarrow> override_info option" where
  "selected_with b = Some \<lparr>expose = JBool b, source = JStr ''selected''\<rparr>"

definition implied_with :: "bool \<Rightarrow> override_info option" where
  "implied_with b = Some \<lparr>expose = JBool b, source = JStr ''implied''\<rparr>"

section \<open>Auxiliary notions for the statements\<close>

text \<open>
  The entities that \<^verbatim>\<open>_propagateDeviceToEntities\<close> rewrites: not filtered, and
  currently implied (when the device is cleared) or unset or implied (when it is set).
\<close>

definition propagate_target :: "panel \<Rightarrow> jsval \<Rightarrow> string \<Rightarrow> bool" where
  "propagate_target p ex k =
    (\<not> isEntityFiltered p k \<and>
     (if ex = JNull then is_implied (entityInfo p k)
      else entityInfo p k = None \<or> is_implied (entityInfo p k)))"

text \<open>
  Every normalized override of the listed entities carries a Boolean
  \<^verbatim>\<open>expose\<close>, the only values of the data model.
\<close>

definition boolean_exposes :: "panel \<Rightarrow> entity list \<Rightarrow> bool" where
  "boolean_exposes p es =
    list_all (\<lambda>e. case entityInfo p (entity_id e) of
                     None \<Rightarrow> True
                   | Some i \<Rightarrow> (case expose i of JBool b \<Rightarrow> True | _ \<Rightarrow> False)) es"

text \<open>
  The device recomputed after an edit of the entity: the truthy \<^verbatim>\<open>device_id\<close>
  of the first entity with this identifier.
\<close>

definition owningDevice :: "panel \<Rightarrow> string \<Rightarrow> string option" where
  "owningDevice p entityId =
    (case find (\<lambda>e. entity_id e = entityId) (entities p) of
       None \<Rightarrow> None
     | Some e \<Rightarrow> (case device_id e of None \<Rightarrow> None
                                   | Some d \<Rightarrow> if d \<noteq> [] then Some d else None))"

text \<open>
  The registry snapshot and the two filter lists are the same in both panels.
\<close>

definition same_topology :: "panel \<Rightarrow> panel \<Rightarrow> bool" where
  "same_topology p p' =
    (entities p' = entities p \<and>
     filtered_entities (pendingConfig p') = filtered_entities (pendingConfig p) \<and>
     filtered_devices (pendingConfig p') = filtered_devices (pendingConfig p))"

text \<open>
  A stored value that is neither a Boolean nor an object with an \<^verbatim>\<open>expose\<close> key.
\<close>

definition unrecognized :: "jsval \<Rightarrow> bool" where
  "unrecognized v =
    (case v of JBool b \<Rightarrow> False
             | JObj kvs \<Rightarrow> ''expose'' \<notin> fst ` set kvs
             | _ \<Rightarrow> True)"

text \<open>
  \<^verbatim>\<open>this._preview?.exposed || []\<close>.
\<close>

definition exposedEntities :: "panel \<Rightarrow> string list" where
  "exposedEntities p = (case preview_exposed p of None \<Rightarrow> [] | Some xs \<Rightarrow> xs)"

section \<open>Example panels\<close>

text \<open>
  One device \<open>d1\<close> with two lights, and a switch without a device.
\<close>

definition kitchen_entities :: "entity list" where
  "kitchen_entities =
    [\<lparr>entity_id = ''light.a'', device_id = Some ''d1'', name = Some ''Kitchen Light''\<rparr>,
     \<lparr>entity_id = ''light.b'', device_id = Some ''d1'', name = None\<rparr>,
     \<lparr>entity_id = ''switch.c'', device_id = None, name = Some ''Fan''\<rparr>]"

definition fresh_panel :: panel where
  "fresh_panel =
    \<lparr>entities = kitchen_entities,
     pendingConfig = \<lparr>entity_overrides = Map.empty, device_overrides = Map.empty,
                      entity_config = Map.empty, filtered_entities = [],
                      filtered_devices = [], auto_aliases = JUndefined\<rparr>,
     hasChanges = False, preview_exposed = None\<rparr>"

definition selected_panel :: panel where
  "selected_panel =
    \<lparr>entities = kitchen_entities,
     pendingConfig =
       \<lparr>entity_overrides = [''light.a'' \<mapsto> stored (JBool True) ''selected'',
                            ''light.b'' \<mapsto> stored (JBool True) ''selected''],
        device_overrides = [''d1'' \<mapsto> stored (JBool True) ''implied''],
        entity_config = Map.empty, filtered_entities = [],
        filtered_devices = [], auto_aliases = JUndefined\<rparr>,
     hasChanges = True, preview_exposed = None\<rparr>"

definition device_selected_panel :: panel where
  "device_selected_panel =
    \<lparr>entities = kitchen_entities,
     pendingConfig =
       \<lparr>entity_overrides = [''light.a'' \<mapsto> stored (JBool True) ''implied'',
                            ''light.b'' \<mapsto> stored (JBool False) ''selected''],
        device_overrides = [''d1'' \<mapsto> stored (JBool True) ''selected''],
        entity_config = Map.empty, filtered_entities = [],
        filtered_devices = [], auto_aliases = JUndefined\<rparr>,
     hasChanges = True, preview_exposed = None\<rparr>"

definition stale_panel :: panel where
  "stale_panel =
    \<lparr>entities = kitchen_entities,
     pendingConfig =
       \<lparr>entity_overrides = [''light.a'' \<mapsto> stored (JBool True) ''selected''],
        device_overrides = [''d1'' \<mapsto> stored (JBool True) ''implied''],
        entity_config = Map.empty, filtered_entities = [],
        filtered_devices = [], auto_aliases = JUndefined\<rparr>,
     hasChanges = True, preview_exposed = None\<rparr>"

definition hidden_panel :: panel where
  "hidden_panel =
    \<lparr>entities = kitchen_entities,
     pendingConfig =
       \<lparr>entity_overrides = Map.empty,
        device_overrides = [''d1'' \<mapsto> stored (JBool True) ''implied''],
        entity_config = Map.empty, filtered_entities = [''light.a'', ''light.b''],
        filtered_devices = [''d1''], auto_aliases = JUndefined\<rparr>,
     hasChanges = False, preview_exposed = None\<rparr>"

definition hidden_device_panel :: panel where
  "hidden_device_panel =
    \<lparr>entities = kitchen_entities,
     pendingConfig =
       \<lparr>entity_overrides = [''light.b'' \<mapsto> stored (JBool True) ''selected''],
        device_overrides = Map.empty,
        entity_config = Map.empty, filtered_entities = [],
        filtered_devices = [''d1''], auto_aliases = JUndefined\<rparr>,
     hasChanges = False, preview_exposed = None\<rparr>"

definition legacy_panel :: panel where
  "legacy_panel =
    \<lparr>entities = kitchen_entities,
     pendingConfig =
       \<lparr>entity_overrides = [''light.a'' \<mapsto> JBool False, ''light.b'' \<mapsto> JStr ''yes''],
        device_overrides = [''d1'' \<mapsto> JBool False, ''d2'' \<mapsto> JNum 1],
        entity_config = Map.empty, filtered_entities = [],
        filtered_devices = [], auto_aliases = JUndefined\<rparr>,
     hasChanges = False, preview_exposed = None\<rparr>"

text \<open>
  A panel with a preview: \<open>light.b\<close> has an alias set by hand, \<open>light.a\<close>
  has no configuration.
\<close>

definition alias_config :: config where
  "alias_config =
    \<lparr>entity_overrides = Map.empty, device_overrides = Map.empty,
     entity_config = [''light.b'' \<mapsto> \<lparr>cfg_name = Some ''Desk Lamp'',
                                        cfg_aliases = Some [''reading light''],
                                        cfg_room = None\<rparr>],
     filtered_entities = [], filtered_devices = [], auto_aliases = JBool True\<rparr>"

definition alias_panel :: panel where
  "alias_panel =
    \<lparr>entities = kitchen_entities, pendingConfig = alias_config, hasChanges = True,
     preview_exposed = Some [''light.a'', ''light.b'']\<rparr>"

section \<open>The getters never raise\<close>

lemma getEntityOverrideInfo_total:
  "\<exists>r. getEntityOverrideInfo p k = Inr r"
proof (cases "entity_overrides (pendingConfig p) k")
  case None
  then show ?thesis by (simp add: getEntityOverrideInfo_def)
next
  case (Some v)
  then show ?thesis
    by (cases v) (simp_all add: getEntityOverrideInfo_def Let_def split: bool.splits)
qed

lemma getEntityOverrideInfo_Inr:
  "getEntityOverrideInfo p k = Inr (entityInfo p k)"
  using getEntityOverrideInfo_total [of p k] by (auto simp: entityInfo_def)

lemma getDeviceOverrideInfo_total:
  "\<exists>r. getDeviceOverrideInfo p k = Inr r"
proof (cases "device_overrides (pendingConfig p) k")
  case None
  then show ?thesis by (simp add: getDeviceOverrideInfo_def)
next
  case (Some v)
  then show ?thesis
    by (cases v) (simp_all add: getDeviceOverrideInfo_def Let_def split: bool.splits)
qed

lemma getDeviceOverrideInfo_Inr:
  "getDeviceOverrideInfo p k = Inr (deviceInfo p k)"
  using getDeviceOverrideInfo_total [of p k] by (auto simp: deviceInfo_def)

lemma entityInfo_cong:
  "entity_overrides (pendingConfig p') k = entity_overrides (pendingConfig p) k
    \<Longrightarrow> entityInfo p' k = entityInfo p k"
  by (simp add: entityInfo_def getEntityOverrideInfo_def)

lemma deviceInfo_cong:
  "device_overrides (pendingConfig p') k = device_overrides (pendingConfig p) k
    \<Longrightarrow> deviceInfo p' k = deviceInfo p k"
  by (simp add: deviceInfo_def getDeviceOverrideInfo_def)

lemma entityInfo_stored:
  "entity_overrides (pendingConfig p) k = Some (stored ex src) \<Longrightarrow> src \<noteq> []
    \<Longrightarrow> entityInfo p k = Some \<lparr>expose = ex, source = JStr src\<rparr>"
  by (simp add: entityInfo_def getEntityOverrideInfo_def stored_def)

lemma deviceInfo_stored:
  "device_overrides (pendingConfig p) k = Some (stored ex src) \<Longrightarrow> src \<noteq> []
    \<Longrightarrow> deviceInfo p k = Some \<lparr>expose = ex, source = JStr src\<rparr>"
  by (simp add: deviceInfo_def getDeviceOverrideInfo_def stored_def)

lemma entityInfo_None:
  "entity_overrides (pendingConfig p) k = None \<Longrightarrow> entityInfo p k = None"
  by (simp add: entityInfo_def getEntityOverrideInfo_def)

lemma deviceInfo_None:
  "device_overrides (pendingConfig p) k = None \<Longrightarrow> deviceInfo p k = None"
  by (simp add: deviceInfo_def getDeviceOverrideInfo_def)

lemma is_selected_None [simp]: "\<not> is_selected None"
  by (simp add: is_selected_def)

lemma is_implied_None [simp]: "\<not> is_implied None"
  by (simp add: is_implied_def)

lemma selected_not_implied:
  "is_selected r \<Longrightarrow> \<not> is_implied r \<and> r \<noteq> None"
  by (cases r) (auto simp: is_selected_def is_implied_def)

lemma selected_with_iff:
  "(case r of None \<Rightarrow> False
    | Some i \<Rightarrow> strict_eq (expose i) (JBool b) \<and> source i = JStr ''selected'')
   = (r = selected_with b)"
proof (cases r)
  case None
  then show ?thesis by (simp add: selected_with_def)
next
  case (Some i)
  obtain ex src where i: "i = \<lparr>expose = ex, source = src\<rparr>" by (cases i) auto
  show ?thesis
    by (cases ex) (auto simp: Some i selected_with_def)
qed

lemmas fixture_defs = kitchen_entities_def fresh_panel_def selected_panel_def hidden_panel_def
  hidden_device_panel_def legacy_panel_def device_selected_panel_def stale_panel_def

lemmas eval_defs = entityInfo_def deviceInfo_def getEntityOverrideInfo_def
  getDeviceOverrideInfo_def stored_def is_selected_def is_implied_def selected_with_def
  implied_with_def activeEntities_def isEntityFiltered_def isDeviceFiltered_def
  owningDevice_def Let_def

text \<open>
  Claim C7. Normalization never fails: both getters return a normalized override or
  null for every stored value, and a stored value that is neither a Boolean nor an object
  with an \<^verbatim>\<open>expose\<close> key reads as unset.
\<close>

theorem normalization_never_fails:
  "(\<exists>r. getEntityOverrideInfo p k = Inr r) \<and>
   (\<exists>r. getDeviceOverrideInfo p k = Inr r) \<and>
   (\<forall>v. entity_overrides (pendingConfig p) k = Some v \<and> unrecognized v \<longrightarrow>
        getEntityOverrideInfo p k = Inr None) \<and>
   (\<forall>v. device_overrides (pendingConfig p) k = Some v \<and> unrecognized v \<longrightarrow>
        getDeviceOverrideInfo p k = Inr None)"
proof -
  have e: "getEntityOverrideInfo p k = Inr None"
    if "entity_overrides (pendingConfig p) k = Some v" and "unrecognized v" for v
    using that
    by (cases v) (simp_all add: getEntityOverrideInfo_def unrecognized_def Let_def)
  have d: "getDeviceOverrideInfo p k = Inr None"
    if "device_overrides (pendingConfig p) k = Some v" and "unrecognized v" for v
    using that
    by (cases v) (simp_all add: getDeviceOverrideInfo_def unrecognized_def Let_def)
  show ?thesis
    using getEntityOverrideInfo_total [of p k] getDeviceOverrideInfo_total [of p k] e d
    by blast
qed

text \<open>
  The string \<^verbatim>\<open>"yes"\<close> and the number 1 are read as unset.
\<close>

theorem normalization_never_fails_witness:
  "unrecognized (JStr ''yes'') \<and> unrecognized (JNum 1) \<and>
   getEntityOverrideInfo legacy_panel ''light.b'' = Inr None \<and>
   getDeviceOverrideInfo legacy_panel ''d2'' = Inr None"
proof -
  have a: "entity_overrides (pendingConfig legacy_panel) ''light.b'' = Some (JStr ''yes'')"
    by (simp add: legacy_panel_def)
  have b: "device_overrides (pendingConfig legacy_panel) ''d2'' = Some (JNum 1)"
    by (simp add: legacy_panel_def)
  have u: "unrecognized (JStr ''yes'')" "unrecognized (JNum 1)"
    by (simp_all add: unrecognized_def)
  show ?thesis
    using normalization_never_fails [of legacy_panel "''light.b''"]
      normalization_never_fails [of legacy_panel "''d2''"] a b u
    by simp
qed

section \<open>Legacy encodings\<close>

text \<open>
  Normalizing a normalized override gives it back, a bare \<^verbatim>\<open>true\<close> and an object
  without \<^verbatim>\<open>source\<close> read as selected.
\<close>

lemma getEntityOverrideInfo_idempotent:
  assumes "getEntityOverrideInfo p k = Inr (Some i)"
    and "entity_overrides (pendingConfig p') k' =
           Some (JObj [(''expose'', expose i), (''source'', source i)])"
  shows "getEntityOverrideInfo p' k' = Inr (Some i)"
proof -
  have "truthy (source i)"
  proof (cases "entity_overrides (pendingConfig p) k")
    case None
    then show ?thesis using assms(1) by (simp add: getEntityOverrideInfo_def)
  next
    case (Some v)
    then show ?thesis
      using assms(1)
      by (cases v)
         (auto simp: getEntityOverrideInfo_def Let_def split: if_splits bool.splits)
  qed
  then show ?thesis
    using assms(2) by (simp add: getEntityOverrideInfo_def)
qed

lemma getEntityOverrideInfo_legacy_true:
  "entity_overrides (pendingConfig p) k = Some (JBool True) \<Longrightarrow>
   getEntityOverrideInfo p k = Inr (selected_with True)"
  by (simp add: getEntityOverrideInfo_def selected_with_def)

lemma getEntityOverrideInfo_without_source:
  "entity_overrides (pendingConfig p) k = Some (JObj kvs) \<Longrightarrow> map_of kvs ''expose'' = Some ex
   \<Longrightarrow> map_of kvs ''source'' = None
   \<Longrightarrow> getEntityOverrideInfo p k = Inr (Some \<lparr>expose = ex, source = JStr ''selected''\<rparr>)"
  by (auto simp: getEntityOverrideInfo_def Let_def dest: map_of_SomeD
        intro: rev_image_eqI split: bool.splits)

lemma getDeviceOverrideInfo_idempotent:
  assumes "getDeviceOverrideInfo p k = Inr (Some i)"
    and "device_overrides (pendingConfig p') k' =
           Some (JObj [(''expose'', expose i), (''source'', source i)])"
  shows "getDeviceOverrideInfo p' k' = Inr (Some i)"
proof -
  have "truthy (source i)"
  proof (cases "device_overrides (pendingConfig p) k")
    case None
    then show ?thesis using assms(1) by (simp add: getDeviceOverrideInfo_def)
  next
    case (Some v)
    then show ?thesis
      using assms(1)
      by (cases v)
         (auto simp: getDeviceOverrideInfo_def Let_def split: if_splits bool.splits)
  qed
  then show ?thesis
    using assms(2) by (simp add: getDeviceOverrideInfo_def)
qed

lemma getDeviceOverrideInfo_legacy_true:
  "device_overrides (pendingConfig p) k = Some (JBool True) \<Longrightarrow>
   getDeviceOverrideInfo p k = Inr (selected_with True)"
  by (simp add: getDeviceOverrideInfo_def selected_with_def)

lemma getDeviceOverrideInfo_without_source:
  "device_overrides (pendingConfig p) k = Some (JObj kvs) \<Longrightarrow> map_of kvs ''expose'' = Some ex
   \<Longrightarrow> map_of kvs ''source'' = None
   \<Longrightarrow> getDeviceOverrideInfo p k = Inr (Some \<lparr>expose = ex, source = JStr ''selected''\<rparr>)"
  by (auto simp: getDeviceOverrideInfo_def Let_def dest: map_of_SomeD
        intro: rev_image_eqI split: bool.splits)

text \<open>
  Claim C6. A bare Boolean \<open>b\<close> is claimed to normalize to
  \<^verbatim>\<open>{expose: b, source: 'selected'}\<close>. The stored value \<^verbatim>\<open>false\<close> is falsy, so
  the first test of either getter returns null before the branch for bare Booleans is
  reached: a legacy exclusion reads as unset.
\<close>

theorem legacy_false_reads_as_unset:
  "getEntityOverrideInfo legacy_panel ''light.a'' = Inr None \<and>
   getDeviceOverrideInfo legacy_panel ''d1'' = Inr None"
  by (simp add: getEntityOverrideInfo_def getDeviceOverrideInfo_def legacy_panel_def)

section \<open>The loops\<close>

lemma propagate_loop_clear:
  "propagate_loop p JNull es ov =
     Inr (\<lambda>k. if k \<in> entity_id ` set es \<and> propagate_target p JNull k
               then None else ov k)"
proof (induction es arbitrary: ov)
  case Nil
  show ?case by simp
next
  case (Cons e es)
  show ?case
    by (cases "entityInfo p (entity_id e)")
       (auto simp: Cons.IH getEntityOverrideInfo_Inr propagate_target_def is_implied_def
          fun_eq_iff)
qed

lemma propagate_loop_set:
  "ex \<noteq> JNull \<Longrightarrow> propagate_loop p ex es ov =
     Inr (\<lambda>k. if k \<in> entity_id ` set es \<and> propagate_target p ex k
               then Some (stored ex ''implied'') else ov k)"
proof (induction es arbitrary: ov)
  case Nil
  show ?case by simp
next
  case (Cons e es)
  show ?case
    by (cases "entityInfo p (entity_id e)")
       (auto simp: Cons.IH [OF Cons.prems] Cons.prems getEntityOverrideInfo_Inr
          propagate_target_def is_implied_def fun_eq_iff)
qed

lemma propagateDeviceToEntities_Inr:
  "propagateDeviceToEntities p d ex src =
     Inr (p\<lparr>pendingConfig := (pendingConfig p)\<lparr>entity_overrides :=
        (\<lambda>k. if k \<in> entity_id ` set (filter (\<lambda>e. device_id e = Some d) (entities p))
                   \<and> propagate_target p ex k
               then (if ex = JNull then None else Some (stored ex ''implied''))
               else entity_overrides (pendingConfig p) k)\<rparr>\<rparr>)"
proof (cases "ex = JNull")
  case True
  then show ?thesis
    by (simp add: propagateDeviceToEntities_def propagate_loop_clear)
next
  case False
  then show ?thesis
    by (simp add: propagateDeviceToEntities_def propagate_loop_set)
qed

lemma is_selected_not_target:
  "is_selected (entityInfo p k) \<Longrightarrow> \<not> propagate_target p ex k"
  by (cases "entityInfo p k") (auto simp: is_selected_def propagate_target_def is_implied_def)

lemma recalc_loop_total:
  "\<exists>st'. recalc_loop p es (a, s, f) = Inr st'"
proof (induction es arbitrary: a s f)
  case Nil
  show ?case by simp
next
  case (Cons e es)
  show ?case
    using Cons.IH
    by (cases "entityInfo p (entity_id e)") (auto simp: getEntityOverrideInfo_Inr)
qed

lemma recalc_loop_agree:
  assumes "\<forall>e \<in> set es. entityInfo p (entity_id e) = selected_with b"
    and "fv = JNull \<or> fv = JBool b"
  shows "recalc_loop p es (True, True, fv) = Inr (True, True, if es = [] then fv else JBool b)"
  using assms
proof (induction es arbitrary: fv)
  case Nil
  show ?case by simp
next
  case (Cons e es)
  have e: "entityInfo p (entity_id e) = selected_with b" using Cons.prems by simp
  have rest: "\<forall>e \<in> set es. entityInfo p (entity_id e) = selected_with b"
    using Cons.prems by simp
  have "recalc_loop p es (True, True, JBool b) = Inr (True, True, JBool b)"
    using Cons.IH [OF rest, of "JBool b"] by simp
  then show ?case
    using Cons.prems(2) e
    by (auto simp: getEntityOverrideInfo_Inr selected_with_def)
qed

lemma recalc_loop_implied_only_if:
  assumes "recalc_loop p es (True, True, fv) = Inr (True, True, f)"
    and "boolean_exposes p es"
    and "fv = JNull \<or> (\<exists>b. fv = JBool b)"
    and "f \<noteq> JNull"
  shows "\<exists>b. f = JBool b \<and> (fv = JNull \<or> fv = f) \<and>
             (\<forall>e \<in> set es. entityInfo p (entity_id e) = selected_with b)"
  using assms
proof (induction es arbitrary: fv)
  case Nil
  then show ?case by auto
next
  case (Cons e es)
  from Cons.prems(1) obtain i where i: "entityInfo p (entity_id e) = Some i"
    and sel: "source i = JStr ''selected''"
    by (cases "entityInfo p (entity_id e)")
       (auto simp: getEntityOverrideInfo_Inr split: if_splits)
  from Cons.prems(2) i obtain b0 where b0: "expose i = JBool b0"
    by (auto simp: boolean_exposes_def split: jsval.splits)
  have be: "boolean_exposes p es" using Cons.prems(2) by (simp add: boolean_exposes_def)
  have info: "entityInfo p (entity_id e) = selected_with b0"
    using i sel b0 by (cases i) (simp add: selected_with_def)
  show ?case
  proof (cases "fv = JNull")
    case True
    then have "recalc_loop p es (True, True, JBool b0) = Inr (True, True, f)"
      using Cons.prems(1) i sel b0 by (simp add: getEntityOverrideInfo_Inr)
    from Cons.IH [OF this be _ Cons.prems(4)]
    show ?thesis using True info by auto
  next
    case False
    then obtain b1 where fv: "fv = JBool b1" using Cons.prems(3) by auto
    have eq: "b0 = b1" and rec: "recalc_loop p es (True, True, fv) = Inr (True, True, f)"
      using Cons.prems(1) i sel b0 fv
      by (auto simp: getEntityOverrideInfo_Inr split: if_splits)
    from Cons.IH [OF rec be Cons.prems(3) Cons.prems(4)]
    show ?thesis using False info eq fv by auto
  qed
qed

lemma recalc_loop_cong:
  "entity_overrides (pendingConfig p') = entity_overrides (pendingConfig p) \<Longrightarrow>
   recalc_loop p' es (a, s, f) = recalc_loop p es (a, s, f)"
proof (induction es arbitrary: a s f)
  case Nil
  show ?case by simp
next
  case (Cons e es)
  have "getEntityOverrideInfo p' (entity_id e) = getEntityOverrideInfo p (entity_id e)"
    using Cons.prems by (simp add: getEntityOverrideInfo_def)
  then show ?case
    using Cons.IH [OF Cons.prems] by (simp split: sum.splits option.splits)
qed

section \<open>Propagation steps\<close>

lemma same_topology_refl: "same_topology p p"
  by (simp add: same_topology_def)

lemma same_topology_trans:
  "same_topology p p' \<Longrightarrow> same_topology p' p'' \<Longrightarrow> same_topology p p''"
  by (simp add: same_topology_def)

lemma activeEntities_cong:
  "same_topology p p' \<Longrightarrow> activeEntities p' d = activeEntities p d"
  by (simp add: same_topology_def activeEntities_def isEntityFiltered_def)

lemma active_iff:
  "e \<in> set (activeEntities p d) \<longleftrightarrow>
     e \<in> set (entities p) \<and> device_id e = Some d \<and> \<not> isEntityFiltered p (entity_id e)"
  by (auto simp: activeEntities_def)

lemma recalculateDeviceState_frame:
  "\<exists>p'. recalculateDeviceState p d = Inr p' \<and> same_topology p p' \<and>
        hasChanges p' = hasChanges p \<and>
        entity_overrides (pendingConfig p') = entity_overrides (pendingConfig p) \<and>
        entity_config (pendingConfig p') = entity_config (pendingConfig p) \<and>
        (\<forall>d'. d' \<noteq> d \<longrightarrow>
           device_overrides (pendingConfig p') d' = device_overrides (pendingConfig p) d')"
proof -
  obtain a s f where loop: "recalc_loop p (activeEntities p d) (True, True, JNull) = Inr (a, s, f)"
    using recalc_loop_total [of p "activeEntities p d" True True JNull] by (metis prod_cases3)
  show ?thesis
    by (simp add: recalculateDeviceState_def getDeviceOverrideInfo_Inr loop Let_def
          same_topology_def)
qed

lemma recalculateDeviceState_selected:
  "is_selected (deviceInfo p d) \<Longrightarrow> recalculateDeviceState p d = Inr p"
  by (simp add: recalculateDeviceState_def getDeviceOverrideInfo_Inr is_selected_def)

lemma recalculateDeviceState_no_active:
  "activeEntities p d = [] \<Longrightarrow> recalculateDeviceState p d = Inr p"
  by (simp add: recalculateDeviceState_def)

lemma recalculateDeviceState_keeps_selected:
  "\<exists>p'. recalculateDeviceState p d = Inr p' \<and> same_topology p p' \<and>
        entity_overrides (pendingConfig p') = entity_overrides (pendingConfig p) \<and>
        (\<forall>d'. is_selected (deviceInfo p d') \<longrightarrow>
           device_overrides (pendingConfig p') d' = device_overrides (pendingConfig p) d')"
proof (cases "is_selected (deviceInfo p d)")
  case True
  then show ?thesis
    by (simp add: recalculateDeviceState_selected same_topology_refl)
next
  case False
  then show ?thesis
    using recalculateDeviceState_frame [of p d] by auto
qed

lemma propagateDeviceToEntities_keeps_selected:
  "\<exists>p'. propagateDeviceToEntities p d ex src = Inr p' \<and> same_topology p p' \<and>
        device_overrides (pendingConfig p') = device_overrides (pendingConfig p) \<and>
        (\<forall>k. is_selected (entityInfo p k) \<longrightarrow>
           entity_overrides (pendingConfig p') k = entity_overrides (pendingConfig p) k)"
  by (simp add: propagateDeviceToEntities_Inr same_topology_def is_selected_not_target)

section \<open>Setters and button actions\<close>

lemma setEntityOverride_effect:
  "\<exists>p'. setEntityOverride p k ex src = Inr p' \<and> same_topology p p' \<and>
        entity_overrides (pendingConfig p') =
          (if ex = JNull then (entity_overrides (pendingConfig p))(k := None)
           else (entity_overrides (pendingConfig p))(k \<mapsto> stored ex src)) \<and>
        (\<forall>d. owningDevice p k \<noteq> Some d \<longrightarrow>
           device_overrides (pendingConfig p') d = device_overrides (pendingConfig p) d) \<and>
        (\<forall>d. is_selected (deviceInfo p d) \<longrightarrow>
           device_overrides (pendingConfig p') d = device_overrides (pendingConfig p) d) \<and>
        (\<forall>d. owningDevice p k = Some d \<and> activeEntities p d = [] \<longrightarrow>
           device_overrides (pendingConfig p') = device_overrides (pendingConfig p))"
proof -
  define ov where "ov = (if ex = JNull then (entity_overrides (pendingConfig p))(k := None)
           else (entity_overrides (pendingConfig p))(k \<mapsto> stored ex src))"
  define p1 where "p1 = p\<lparr>pendingConfig := (pendingConfig p)\<lparr>entity_overrides := ov\<rparr>\<rparr>"
  have top: "same_topology p p1" by (simp add: p1_def same_topology_def)
  have dev: "device_overrides (pendingConfig p1) = device_overrides (pendingConfig p)"
    by (simp add: p1_def)
  have ent: "entity_overrides (pendingConfig p1) = ov" by (simp add: p1_def)
  have dinfo: "\<And>d. deviceInfo p1 d = deviceInfo p d"
    by (rule deviceInfo_cong) (simp add: dev)
  have unfold: "setEntityOverride p k ex src =
     (case (case owningDevice p k of None \<Rightarrow> Inr p1
                                   | Some d \<Rightarrow> recalculateDeviceState p1 d) of
        Inl err \<Rightarrow> Inl err | Inr p2 \<Rightarrow> Inr (p2\<lparr>hasChanges := True\<rparr>))"
    by (simp add: setEntityOverride_def owningDevice_def p1_def ov_def Let_def
          split: option.splits)
  show ?thesis
  proof (cases "owningDevice p k")
    case None
    then show ?thesis
      using top by (simp add: unfold ent dev ov_def same_topology_def)
  next
    case (Some d)
    obtain p2 where r: "recalculateDeviceState p1 d = Inr p2"
      and top2: "same_topology p1 p2"
      and ent2: "entity_overrides (pendingConfig p2) = entity_overrides (pendingConfig p1)"
      and other: "\<forall>d'. d' \<noteq> d \<longrightarrow>
           device_overrides (pendingConfig p2) d' = device_overrides (pendingConfig p1) d'"
      using recalculateDeviceState_frame [of p1 d] by blast
    have sel: "\<forall>d'. is_selected (deviceInfo p1 d') \<longrightarrow>
           device_overrides (pendingConfig p2) d' = device_overrides (pendingConfig p1) d'"
      using recalculateDeviceState_keeps_selected [of p1 d] r by auto
    have noact: "activeEntities p d = [] \<Longrightarrow> p2 = p1"
      using recalculateDeviceState_no_active [of p1 d] r activeEntities_cong [OF top, of d]
      by simp
    have res: "setEntityOverride p k ex src = Inr (p2\<lparr>hasChanges := True\<rparr>)"
      by (simp add: unfold Some r)
    show ?thesis
      using top top2 ent2 other sel noact
      by (auto simp: res Some ent dev dinfo ov_def same_topology_def)
  qed
qed

lemma setDeviceOverride_effect:
  "\<exists>p'. setDeviceOverride p d ex src = Inr p' \<and> same_topology p p' \<and>
        device_overrides (pendingConfig p') =
          (if ex = JNull then (device_overrides (pendingConfig p))(d := None)
           else (device_overrides (pendingConfig p))(d \<mapsto> stored ex src)) \<and>
        (\<forall>k. entity_overrides (pendingConfig p') k =
           (if (\<exists>e \<in> set (activeEntities p d). entity_id e = k) \<and>
               (if ex = JNull then is_implied (entityInfo p k)
                else entityInfo p k = None \<or> is_implied (entityInfo p k))
            then (if ex = JNull then None else Some (stored ex ''implied''))
            else entity_overrides (pendingConfig p) k))"
proof -
  define p1 where "p1 = p\<lparr>pendingConfig := (pendingConfig p)\<lparr>device_overrides :=
          (if ex = JNull then (device_overrides (pendingConfig p))(d := None)
           else (device_overrides (pendingConfig p))(d \<mapsto> stored ex src))\<rparr>\<rparr>"
  have einfo: "\<And>k. entityInfo p1 k = entityInfo p k"
    by (rule entityInfo_cong) (simp add: p1_def)
  have filt: "\<And>k. isEntityFiltered p1 k = isEntityFiltered p k"
    by (simp add: p1_def isEntityFiltered_def)
  have tgt: "\<And>k. propagate_target p1 ex k = propagate_target p ex k"
    by (simp add: propagate_target_def einfo filt)
  have mem: "\<And>k. (k \<in> entity_id ` set (filter (\<lambda>e. device_id e = Some d) (entities p))
                  \<and> propagate_target p ex k) =
             ((\<exists>e \<in> set (activeEntities p d). entity_id e = k) \<and>
               (if ex = JNull then is_implied (entityInfo p k)
                else entityInfo p k = None \<or> is_implied (entityInfo p k)))"
    by (auto simp: activeEntities_def propagate_target_def)
  have ents: "entities p1 = entities p" by (simp add: p1_def)
  have eov: "entity_overrides (pendingConfig p1) = entity_overrides (pendingConfig p)"
    by (simp add: p1_def)
  have step: "setDeviceOverride p d ex src =
     (case propagateDeviceToEntities p1 d ex src of
        Inl err \<Rightarrow> Inl err | Inr p2 \<Rightarrow> Inr (p2\<lparr>hasChanges := True\<rparr>))"
    by (simp add: setDeviceOverride_def Let_def p1_def)
  have res: "setDeviceOverride p d ex src =
     Inr (p1\<lparr>pendingConfig := (pendingConfig p1)\<lparr>entity_overrides :=
        (\<lambda>k. if (\<exists>e \<in> set (activeEntities p d). entity_id e = k) \<and>
               (if ex = JNull then is_implied (entityInfo p k)
                else entityInfo p k = None \<or> is_implied (entityInfo p k))
               then (if ex = JNull then None else Some (stored ex ''implied''))
               else entity_overrides (pendingConfig p) k)\<rparr>, hasChanges := True\<rparr>)"
    unfolding step propagateDeviceToEntities_Inr ents eov tgt mem by simp
  show ?thesis
    unfolding res
    by (simp add: p1_def same_topology_def)
qed

lemma handleEntityButtonClick_unfold:
  "handleEntityButtonClick p k b =
     (if entityInfo p k = selected_with b then setEntityOverride p k JNull ''selected''
      else setEntityOverride p k (JBool b) ''selected'')"
  by (simp add: handleEntityButtonClick_def getEntityOverrideInfo_Inr selected_with_iff)

lemma handleDeviceButtonClick_unfold:
  "handleDeviceButtonClick p d b =
     (if deviceInfo p d = selected_with b then setDeviceOverride p d JNull ''selected''
      else setDeviceOverride p d (JBool b) ''selected'')"
  by (simp add: handleDeviceButtonClick_def getDeviceOverrideInfo_Inr selected_with_iff)

text \<open>
  Claim C4. The entity button: when the normalized override of the entity is selected with
  the same expose value, the override is removed; otherwise the entity becomes selected
  with that value.
\<close>

theorem entity_click_toggles:
  "\<exists>p'. handleEntityButtonClick p k b = Inr p' \<and>
        entity_overrides (pendingConfig p') k =
          (if entityInfo p k = selected_with b then None
           else Some (stored (JBool b) ''selected'')) \<and>
        entityInfo p' k = (if entityInfo p k = selected_with b then None else selected_with b)"
proof (cases "entityInfo p k = selected_with b")
  case True
  obtain p' where r: "setEntityOverride p k JNull ''selected'' = Inr p'"
    and ov: "entity_overrides (pendingConfig p') = (entity_overrides (pendingConfig p))(k := None)"
    using setEntityOverride_effect [of p k JNull "''selected''"] by auto
  have "entityInfo p' k = None" by (rule entityInfo_None) (simp add: ov)
  then show ?thesis
    using True r ov by (simp add: handleEntityButtonClick_unfold)
next
  case False
  obtain p' where r: "setEntityOverride p k (JBool b) ''selected'' = Inr p'"
    and ov: "entity_overrides (pendingConfig p') =
        (entity_overrides (pendingConfig p))(k \<mapsto> stored (JBool b) ''selected'')"
    using setEntityOverride_effect [of p k "JBool b" "''selected''"] by auto
  have "entityInfo p' k = selected_with b"
    using entityInfo_stored [of p' k "JBool b" "''selected''"]
    by (simp add: ov selected_with_def)
  then show ?thesis
    using False r ov by (simp add: handleEntityButtonClick_unfold)
qed

text \<open>
  A first click on an unset entity selects it; a click on an entity already selected with
  the value clears it.
\<close>

theorem entity_click_toggles_witness:
  "(\<exists>p'. handleEntityButtonClick fresh_panel ''light.a'' True = Inr p' \<and>
      entity_overrides (pendingConfig p') ''light.a'' = Some (stored (JBool True) ''selected'')) \<and>
   (\<exists>p'. handleEntityButtonClick selected_panel ''light.a'' True = Inr p' \<and>
      entity_overrides (pendingConfig p') ''light.a'' = None)"
  using entity_click_toggles [of fresh_panel "''light.a''" True]
    entity_click_toggles [of selected_panel "''light.a''" True]
  by (auto simp: fixture_defs eval_defs)

text \<open>
  Claim C9. The entity button leaves the override of every other entity unchanged, and the
  override of every device other than the owning device of the entity.
\<close>

theorem entity_click_frame:
  "\<exists>p'. handleEntityButtonClick p k b = Inr p' \<and>
        (\<forall>k'. k' \<noteq> k \<longrightarrow>
           entity_overrides (pendingConfig p') k' = entity_overrides (pendingConfig p) k') \<and>
        (\<forall>d. owningDevice p k \<noteq> Some d \<longrightarrow>
           device_overrides (pendingConfig p') d = device_overrides (pendingConfig p) d)"
proof -
  have "\<exists>p'. setEntityOverride p k ex ''selected'' = Inr p' \<and>
        (\<forall>k'. k' \<noteq> k \<longrightarrow>
           entity_overrides (pendingConfig p') k' = entity_overrides (pendingConfig p) k') \<and>
        (\<forall>d. owningDevice p k \<noteq> Some d \<longrightarrow>
           device_overrides (pendingConfig p') d = device_overrides (pendingConfig p) d)" for ex
    using setEntityOverride_effect [of p k ex "''selected''"] by auto
  then show ?thesis
    by (simp add: handleEntityButtonClick_unfold)
qed

theorem entity_click_frame_witness:
  "\<exists>p'. handleEntityButtonClick selected_panel ''light.a'' False = Inr p' \<and>
     entity_overrides (pendingConfig p') ''light.b'' = Some (stored (JBool True) ''selected'') \<and>
     device_overrides (pendingConfig p') ''d2'' = None"
  using entity_click_frame [of selected_panel "''light.a''" False]
  by (auto simp: fixture_defs eval_defs)

text \<open>
  Claim C8. For a device all of whose owned entities are filtered, the upward recomputation
  returns the panel as it was, and a button action on one of its entities leaves the device
  overrides unchanged.
\<close>

theorem no_active_entities_noop:
  assumes "activeEntities p d = []"
  shows "recalculateDeviceState p d = Inr p \<and>
         (owningDevice p k = Some d \<longrightarrow>
            (\<exists>p'. handleEntityButtonClick p k b = Inr p' \<and>
               device_overrides (pendingConfig p') = device_overrides (pendingConfig p)))"
proof -
  have "\<exists>p'. setEntityOverride p k ex ''selected'' = Inr p' \<and>
           device_overrides (pendingConfig p') = device_overrides (pendingConfig p)"
    if "owningDevice p k = Some d" for ex
    using setEntityOverride_effect [of p k ex "''selected''"] that assms by auto
  then show ?thesis
    using assms by (simp add: handleEntityButtonClick_unfold recalculateDeviceState_no_active)
qed

theorem no_active_entities_noop_witness:
  "activeEntities hidden_panel ''d1'' = [] \<and>
   recalculateDeviceState hidden_panel ''d1'' = Inr hidden_panel \<and>
   owningDevice hidden_panel ''light.a'' = Some ''d1'' \<and>
   (\<exists>p'. handleEntityButtonClick hidden_panel ''light.a'' True = Inr p' \<and>
      device_overrides (pendingConfig p') = device_overrides (pendingConfig hidden_panel))"
proof -
  have a: "activeEntities hidden_panel ''d1'' = []"
    by (simp add: fixture_defs eval_defs)
  have o: "owningDevice hidden_panel ''light.a'' = Some ''d1''"
    by (simp add: fixture_defs eval_defs)
  show ?thesis
    using no_active_entities_noop [OF a, of "''light.a''" True] a o by simp
qed

text \<open>
  Claim C2. The device button: when the device is selected with the same expose value, its
  override is removed and every non-filtered owned entity that is implied is cleared;
  otherwise the device becomes selected with the value and every non-filtered owned entity
  that is unset or implied becomes implied with the value. Selected entity overrides are
  unchanged in both branches.
\<close>

theorem device_click_propagates:
  "\<exists>p'. handleDeviceButtonClick p d b = Inr p' \<and>
     (deviceInfo p d = selected_with b \<longrightarrow>
        device_overrides (pendingConfig p') d = None \<and>
        (\<forall>e \<in> set (activeEntities p d). is_implied (entityInfo p (entity_id e)) \<longrightarrow>
           entity_overrides (pendingConfig p') (entity_id e) = None)) \<and>
     (deviceInfo p d \<noteq> selected_with b \<longrightarrow>
        device_overrides (pendingConfig p') d = Some (stored (JBool b) ''selected'') \<and>
        (\<forall>e \<in> set (activeEntities p d).
           entityInfo p (entity_id e) = None \<or> is_implied (entityInfo p (entity_id e)) \<longrightarrow>
           entity_overrides (pendingConfig p') (entity_id e) = Some (stored (JBool b) ''implied''))) \<and>
     (\<forall>k. is_selected (entityInfo p k) \<longrightarrow>
        entity_overrides (pendingConfig p') k = entity_overrides (pendingConfig p) k)"
proof -
  have sel: "is_selected r \<Longrightarrow> \<not> is_implied r \<and> r \<noteq> None" for r
    by (cases r) (auto simp: is_selected_def is_implied_def)
  show ?thesis
  proof (cases "deviceInfo p d = selected_with b")
    case True
    obtain p' where r: "setDeviceOverride p d JNull ''selected'' = Inr p'"
      and dv: "device_overrides (pendingConfig p') = (device_overrides (pendingConfig p))(d := None)"
      and ev: "\<forall>k. entity_overrides (pendingConfig p') k =
           (if (\<exists>e \<in> set (activeEntities p d). entity_id e = k) \<and> is_implied (entityInfo p k)
            then None else entity_overrides (pendingConfig p) k)"
      using setDeviceOverride_effect [of p d JNull "''selected''"] by auto
    show ?thesis
      using True r sel by (auto simp: handleDeviceButtonClick_unfold dv ev)
  next
    case False
    obtain p' where r: "setDeviceOverride p d (JBool b) ''selected'' = Inr p'"
      and dv: "device_overrides (pendingConfig p') =
          (device_overrides (pendingConfig p))(d \<mapsto> stored (JBool b) ''selected'')"
      and ev: "\<forall>k. entity_overrides (pendingConfig p') k =
           (if (\<exists>e \<in> set (activeEntities p d). entity_id e = k) \<and>
               (entityInfo p k = None \<or> is_implied (entityInfo p k))
            then Some (stored (JBool b) ''implied'') else entity_overrides (pendingConfig p) k)"
      using setDeviceOverride_effect [of p d "JBool b" "''selected''"] by auto
    show ?thesis
      using False r sel by (auto simp: handleDeviceButtonClick_unfold dv ev)
  qed
qed

theorem device_click_propagates_witness:
  "(\<exists>p'. handleDeviceButtonClick fresh_panel ''d1'' True = Inr p' \<and>
      device_overrides (pendingConfig p') ''d1'' = Some (stored (JBool True) ''selected'') \<and>
      entity_overrides (pendingConfig p') ''light.a'' = Some (stored (JBool True) ''implied'')) \<and>
   (\<exists>p'. handleDeviceButtonClick device_selected_panel ''d1'' True = Inr p' \<and>
      device_overrides (pendingConfig p') ''d1'' = None \<and>
      entity_overrides (pendingConfig p') ''light.a'' = None \<and>
      entity_overrides (pendingConfig p') ''light.b'' = Some (stored (JBool False) ''selected''))"
proof -
  have 1: "deviceInfo fresh_panel ''d1'' \<noteq> selected_with True"
    "entityInfo fresh_panel ''light.a'' = None"
    "deviceInfo device_selected_panel ''d1'' = selected_with True"
    "is_implied (entityInfo device_selected_panel ''light.a'')"
    "is_selected (entityInfo device_selected_panel ''light.b'')"
    by (simp_all add: fixture_defs eval_defs)
  have 2: "activeEntities fresh_panel ''d1'' = take 2 kitchen_entities"
    "activeEntities device_selected_panel ''d1'' = take 2 kitchen_entities"
    by (simp_all add: fixture_defs eval_defs)
  have 3: "entity_overrides (pendingConfig device_selected_panel) ''light.b'' =
      Some (stored (JBool False) ''selected'')"
    by (simp add: fixture_defs)
  show ?thesis
    using device_click_propagates [of fresh_panel "''d1''" True]
      device_click_propagates [of device_selected_panel "''d1''" True] 1 3
    unfolding 2 by (auto simp: kitchen_entities_def)
qed

section \<open>Sequences of edits\<close>

lemma apply_edit_keeps_selected:
  "\<exists>p'. apply_edit p x = Inr p' \<and> same_topology p p' \<and>
     (\<forall>k. is_selected (entityInfo p k) \<and> (\<forall>b. x \<noteq> EntityClick k b) \<longrightarrow>
        entity_overrides (pendingConfig p') k = entity_overrides (pendingConfig p) k) \<and>
     (\<forall>d. is_selected (deviceInfo p d) \<and> (\<forall>b. x \<noteq> DeviceClick d b) \<longrightarrow>
        device_overrides (pendingConfig p') d = device_overrides (pendingConfig p) d)"
proof (cases x)
  case (EntityClick k0 b0)
  have eff: "\<exists>p'. setEntityOverride p k0 ex ''selected'' = Inr p' \<and> same_topology p p' \<and>
     (\<forall>k. is_selected (entityInfo p k) \<and> k \<noteq> k0 \<longrightarrow>
        entity_overrides (pendingConfig p') k = entity_overrides (pendingConfig p) k) \<and>
     (\<forall>d. is_selected (deviceInfo p d) \<longrightarrow>
        device_overrides (pendingConfig p') d = device_overrides (pendingConfig p) d)" for ex
    using setEntityOverride_effect [of p k0 ex "''selected''"] by auto
  have t1: "(\<forall>b. x \<noteq> EntityClick k b) = (k \<noteq> k0)" for k
    by (auto simp: EntityClick)
  have t2: "\<forall>b. x \<noteq> DeviceClick d' b" for d'
    by (simp add: EntityClick)
  have "\<exists>p'. handleEntityButtonClick p k0 b0 = Inr p' \<and> same_topology p p' \<and>
     (\<forall>k. is_selected (entityInfo p k) \<and> k \<noteq> k0 \<longrightarrow>
        entity_overrides (pendingConfig p') k = entity_overrides (pendingConfig p) k) \<and>
     (\<forall>d. is_selected (deviceInfo p d) \<longrightarrow>
        device_overrides (pendingConfig p') d = device_overrides (pendingConfig p) d)"
    using eff [of JNull] eff [of "JBool b0"] by (simp add: handleEntityButtonClick_unfold)
  then show ?thesis
    unfolding t1 t2 by (simp add: EntityClick)
next
  case (DeviceClick d0 b0)
  have eff: "\<exists>p'. setDeviceOverride p d0 ex ''selected'' = Inr p' \<and> same_topology p p' \<and>
     (\<forall>k. is_selected (entityInfo p k) \<longrightarrow>
        entity_overrides (pendingConfig p') k = entity_overrides (pendingConfig p) k) \<and>
     (\<forall>d. d \<noteq> d0 \<longrightarrow>
        device_overrides (pendingConfig p') d = device_overrides (pendingConfig p) d)" for ex
  proof -
    obtain p' where r: "setDeviceOverride p d0 ex ''selected'' = Inr p'"
      and t: "same_topology p p'"
      and dv: "device_overrides (pendingConfig p') =
          (if ex = JNull then (device_overrides (pendingConfig p))(d0 := None)
           else (device_overrides (pendingConfig p))(d0 \<mapsto> stored ex ''selected''))"
      and ev: "\<And>k. entity_overrides (pendingConfig p') k =
           (if (\<exists>e \<in> set (activeEntities p d0). entity_id e = k) \<and>
               (if ex = JNull then is_implied (entityInfo p k)
                else entityInfo p k = None \<or> is_implied (entityInfo p k))
            then (if ex = JNull then None else Some (stored ex ''implied''))
            else entity_overrides (pendingConfig p) k)"
      using setDeviceOverride_effect [of p d0 ex "''selected''"] by blast
    have "entity_overrides (pendingConfig p') k = entity_overrides (pendingConfig p) k"
      if "is_selected (entityInfo p k)" for k
      using selected_not_implied [OF that] by (auto simp: ev)
    moreover have "device_overrides (pendingConfig p') d = device_overrides (pendingConfig p) d"
      if "d \<noteq> d0" for d
      using that by (simp add: dv)
    ultimately show ?thesis using r t by blast
  qed
  have t1: "(\<forall>b. x \<noteq> DeviceClick d b) = (d \<noteq> d0)" for d
    by (auto simp: DeviceClick)
  have t2: "\<forall>b. x \<noteq> EntityClick k' b" for k'
    by (simp add: DeviceClick)
  have "\<exists>p'. handleDeviceButtonClick p d0 b0 = Inr p' \<and> same_topology p p' \<and>
     (\<forall>k. is_selected (entityInfo p k) \<longrightarrow>
        entity_overrides (pendingConfig p') k = entity_overrides (pendingConfig p) k) \<and>
     (\<forall>d. d \<noteq> d0 \<longrightarrow>
        device_overrides (pendingConfig p') d = device_overrides (pendingConfig p) d)"
    using eff [of JNull] eff [of "JBool b0"] by (simp add: handleDeviceButtonClick_unfold)
  then show ?thesis
    unfolding t1 t2 by (simp add: DeviceClick) blast
qed

lemma apply_edits_keep_selected:
  "\<exists>p'. apply_edits p xs = Inr p' \<and> same_topology p p' \<and>
     (\<forall>k. is_selected (entityInfo p k) \<and> (\<forall>b. EntityClick k b \<notin> set xs) \<longrightarrow>
        entity_overrides (pendingConfig p') k = entity_overrides (pendingConfig p) k) \<and>
     (\<forall>d. is_selected (deviceInfo p d) \<and> (\<forall>b. DeviceClick d b \<notin> set xs) \<longrightarrow>
        device_overrides (pendingConfig p') d = device_overrides (pendingConfig p) d)"
proof (induction xs arbitrary: p)
  case Nil
  show ?case by (simp add: same_topology_refl)
next
  case (Cons x xs)
  obtain p1 where s1: "apply_edit p x = Inr p1" and t1: "same_topology p p1"
    and e1: "\<And>k. is_selected (entityInfo p k) \<Longrightarrow> \<forall>b. x \<noteq> EntityClick k b \<Longrightarrow>
        entity_overrides (pendingConfig p1) k = entity_overrides (pendingConfig p) k"
    and d1: "\<And>d. is_selected (deviceInfo p d) \<Longrightarrow> \<forall>b. x \<noteq> DeviceClick d b \<Longrightarrow>
        device_overrides (pendingConfig p1) d = device_overrides (pendingConfig p) d"
    using apply_edit_keeps_selected [of p x] by blast
  obtain p2 where s2: "apply_edits p1 xs = Inr p2" and t2: "same_topology p1 p2"
    and e2: "\<And>k. is_selected (entityInfo p1 k) \<Longrightarrow> \<forall>b. EntityClick k b \<notin> set xs \<Longrightarrow>
        entity_overrides (pendingConfig p2) k = entity_overrides (pendingConfig p1) k"
    and d2: "\<And>d. is_selected (deviceInfo p1 d) \<Longrightarrow> \<forall>b. DeviceClick d b \<notin> set xs \<Longrightarrow>
        device_overrides (pendingConfig p2) d = device_overrides (pendingConfig p1) d"
    using Cons.IH [of p1] by blast
  have ent: "entity_overrides (pendingConfig p2) k = entity_overrides (pendingConfig p) k"
    if "is_selected (entityInfo p k)" and "\<forall>b. EntityClick k b \<notin> set (x # xs)" for k
  proof -
    have a: "entity_overrides (pendingConfig p1) k = entity_overrides (pendingConfig p) k"
      using e1 [of k] that by auto
    then have "entityInfo p1 k = entityInfo p k" by (rule entityInfo_cong)
    then have "entity_overrides (pendingConfig p2) k = entity_overrides (pendingConfig p1) k"
      using e2 [of k] that by auto
    then show ?thesis using a by simp
  qed
  have dev: "device_overrides (pendingConfig p2) d = device_overrides (pendingConfig p) d"
    if "is_selected (deviceInfo p d)" and "\<forall>b. DeviceClick d b \<notin> set (x # xs)" for d
  proof -
    have a: "device_overrides (pendingConfig p1) d = device_overrides (pendingConfig p) d"
      using d1 [of d] that by auto
    then have "deviceInfo p1 d = deviceInfo p d" by (rule deviceInfo_cong)
    then have "device_overrides (pendingConfig p2) d = device_overrides (pendingConfig p1) d"
      using d2 [of d] that by auto
    then show ?thesis using a by simp
  qed
  show ?case
    using same_topology_trans [OF t1 t2] ent dev by (simp add: s1 s2)
qed

text \<open>
  Both lights of \<open>d1\<close> are selected for exposure, which makes the device implied; the
  device is then excluded as a whole, and the two selected lights stay as they are.
\<close>

lemma scenario_C:
  "(case apply_edits fresh_panel
           [EntityClick ''light.a'' True, EntityClick ''light.b'' True] of
      Inl err \<Rightarrow> None
    | Inr p' \<Rightarrow> Some (device_overrides (pendingConfig p') ''d1'',
                       entity_overrides (pendingConfig p') ''light.a'',
                       entity_overrides (pendingConfig p') ''light.b'')) =
   Some (Some (stored (JBool True) ''implied''),
         Some (stored (JBool True) ''selected''),
         Some (stored (JBool True) ''selected'')) \<and>
   (case apply_edits fresh_panel
           [EntityClick ''light.a'' True, EntityClick ''light.b'' True,
            DeviceClick ''d1'' False] of
      Inl err \<Rightarrow> None
    | Inr p' \<Rightarrow> Some (device_overrides (pendingConfig p') ''d1'',
                       entity_overrides (pendingConfig p') ''light.a'',
                       entity_overrides (pendingConfig p') ''light.b'')) =
   Some (Some (stored (JBool False) ''selected''),
         Some (stored (JBool True) ''selected''),
         Some (stored (JBool True) ''selected''))"
  by (simp add: handleEntityButtonClick_def handleDeviceButtonClick_def setEntityOverride_def
        setDeviceOverride_def recalculateDeviceState_def propagateDeviceToEntities_def
        fixture_defs eval_defs)

text \<open>
  Claim C1. Neither propagation step changes an override that is selected, and after any
  sequence of button actions every entity or device override that was selected and whose
  item no action of the sequence was aimed at is as it was; the registry snapshot and the
  filter lists stay fixed.
\<close>

theorem selected_never_overwritten_by_propagation:
  "(\<exists>p'. propagateDeviceToEntities p d ex src = Inr p' \<and>
      device_overrides (pendingConfig p') = device_overrides (pendingConfig p) \<and>
      (\<forall>k. is_selected (entityInfo p k) \<longrightarrow>
         entity_overrides (pendingConfig p') k = entity_overrides (pendingConfig p) k)) \<and>
   (\<exists>p'. recalculateDeviceState p d = Inr p' \<and>
      entity_overrides (pendingConfig p') = entity_overrides (pendingConfig p) \<and>
      (\<forall>d'. is_selected (deviceInfo p d') \<longrightarrow>
         device_overrides (pendingConfig p') d' = device_overrides (pendingConfig p) d')) \<and>
   (\<exists>p'. apply_edits p xs = Inr p' \<and> same_topology p p' \<and>
      (\<forall>k. is_selected (entityInfo p k) \<and> (\<forall>b. EntityClick k b \<notin> set xs) \<longrightarrow>
         entity_overrides (pendingConfig p') k = entity_overrides (pendingConfig p) k) \<and>
      (\<forall>d'. is_selected (deviceInfo p d') \<and> (\<forall>b. DeviceClick d' b \<notin> set xs) \<longrightarrow>
         device_overrides (pendingConfig p') d' = device_overrides (pendingConfig p) d'))"
proof (intro conjI)
  show "\<exists>p'. propagateDeviceToEntities p d ex src = Inr p' \<and>
      device_overrides (pendingConfig p') = device_overrides (pendingConfig p) \<and>
      (\<forall>k. is_selected (entityInfo p k) \<longrightarrow>
         entity_overrides (pendingConfig p') k = entity_overrides (pendingConfig p) k)"
    using propagateDeviceToEntities_keeps_selected [of p d ex src] by blast
  show "\<exists>p'. recalculateDeviceState p d = Inr p' \<and>
      entity_overrides (pendingConfig p') = entity_overrides (pendingConfig p) \<and>
      (\<forall>d'. is_selected (deviceInfo p d') \<longrightarrow>
         device_overrides (pendingConfig p') d' = device_overrides (pendingConfig p) d')"
    using recalculateDeviceState_keeps_selected [of p d] by blast
  show "\<exists>p'. apply_edits p xs = Inr p' \<and> same_topology p p' \<and>
      (\<forall>k. is_selected (entityInfo p k) \<and> (\<forall>b. EntityClick k b \<notin> set xs) \<longrightarrow>
         entity_overrides (pendingConfig p') k = entity_overrides (pendingConfig p) k) \<and>
      (\<forall>d'. is_selected (deviceInfo p d') \<and> (\<forall>b. DeviceClick d' b \<notin> set xs) \<longrightarrow>
         device_overrides (pendingConfig p') d' = device_overrides (pendingConfig p) d')"
    by (rule apply_edits_keep_selected)
qed

theorem selected_never_overwritten_witness:
  "(\<exists>p'. propagateDeviceToEntities device_selected_panel ''d1'' (JBool True) ''selected'' = Inr p' \<and>
      entity_overrides (pendingConfig p') ''light.b'' = Some (stored (JBool False) ''selected'')) \<and>
   (\<exists>p'. recalculateDeviceState device_selected_panel ''d1'' = Inr p' \<and>
      device_overrides (pendingConfig p') ''d1'' = Some (stored (JBool True) ''selected'')) \<and>
   (\<exists>p'. apply_edits device_selected_panel [EntityClick ''light.a'' False] = Inr p' \<and>
      entity_overrides (pendingConfig p') ''light.b'' = Some (stored (JBool False) ''selected'') \<and>
      device_overrides (pendingConfig p') ''d1'' = Some (stored (JBool True) ''selected''))"
proof -
  have 1: "is_selected (entityInfo device_selected_panel ''light.b'')"
    "is_selected (deviceInfo device_selected_panel ''d1'')"
    by (simp_all add: fixture_defs eval_defs)
  have 2: "entity_overrides (pendingConfig device_selected_panel) ''light.b'' =
      Some (stored (JBool False) ''selected'')"
    "device_overrides (pendingConfig device_selected_panel) ''d1'' =
      Some (stored (JBool True) ''selected'')"
    by (simp_all add: fixture_defs)
  have 3: "\<forall>b. EntityClick ''light.b'' b \<notin> set [EntityClick ''light.a'' False]"
    "\<forall>b. DeviceClick ''d1'' b \<notin> set [EntityClick ''light.a'' False]"
    by simp_all
  from selected_never_overwritten_by_propagation
    [of device_selected_panel "''d1''" "JBool True" "''selected''" "[EntityClick ''light.a'' False]"]
  show ?thesis
    using 1 2 3 by metis
qed

section \<open>Upward recomputation\<close>

text \<open>
  Claim C3, for a device with at least one non-filtered owned entity. A selected device is
  left unchanged. Otherwise, when every non-filtered owned entity is selected with the same
  Boolean, the device becomes implied with it; when they are not (their expose values being
  Booleans), an implied device is cleared and an unset device stays unset.
\<close>

theorem recalculateDeviceState_with_active_entities:
  assumes "activeEntities p d \<noteq> []"
  shows "\<exists>p'. recalculateDeviceState p d = Inr p' \<and>
     (is_selected (deviceInfo p d) \<longrightarrow> p' = p) \<and>
     (\<not> is_selected (deviceInfo p d) \<longrightarrow>
        (\<forall>b. (\<forall>e \<in> set (activeEntities p d). entityInfo p (entity_id e) = selected_with b) \<longrightarrow>
           device_overrides (pendingConfig p') d = Some (stored (JBool b) ''implied'')) \<and>
        (boolean_exposes p (activeEntities p d) \<and>
         \<not> (\<exists>b. \<forall>e \<in> set (activeEntities p d). entityInfo p (entity_id e) = selected_with b) \<longrightarrow>
           (is_implied (deviceInfo p d) \<longrightarrow> device_overrides (pendingConfig p') d = None) \<and>
           (device_overrides (pendingConfig p) d = None \<longrightarrow>
              device_overrides (pendingConfig p') d = None)))"
proof (cases "is_selected (deviceInfo p d)")
  case True
  then show ?thesis by (simp add: recalculateDeviceState_selected)
next
  case False
  then have nsel: "\<not> (case deviceInfo p d of None \<Rightarrow> False
                                            | Some i \<Rightarrow> source i = JStr ''selected'')"
    by (simp add: is_selected_def)
  obtain a s f where loop:
    "recalc_loop p (activeEntities p d) (True, True, JNull) = Inr (a, s, f)"
    using recalc_loop_total [of p "activeEntities p d" True True JNull] by (metis prod_cases3)
  define ov' where "ov' =
     (if a \<and> s \<and> f \<noteq> JNull
      then (device_overrides (pendingConfig p))(d \<mapsto> stored f ''implied'')
      else if is_implied (deviceInfo p d) then (device_overrides (pendingConfig p))(d := None)
      else device_overrides (pendingConfig p))"
  have res: "recalculateDeviceState p d =
      Inr (p\<lparr>pendingConfig := (pendingConfig p)\<lparr>device_overrides := ov'\<rparr>\<rparr>)"
    using assms nsel
    by (simp add: recalculateDeviceState_def getDeviceOverrideInfo_Inr loop Let_def ov'_def
          is_implied_def)
  have agree: "ov' d = Some (stored (JBool b) ''implied'')"
    if "\<forall>e \<in> set (activeEntities p d). entityInfo p (entity_id e) = selected_with b" for b
  proof -
    have "recalc_loop p (activeEntities p d) (True, True, JNull) = Inr (True, True, JBool b)"
      using recalc_loop_agree [OF that, of JNull] assms by simp
    then show ?thesis using loop by (simp add: ov'_def)
  qed
  have other: "\<not> (a \<and> s \<and> f \<noteq> JNull)"
    if be: "boolean_exposes p (activeEntities p d)"
      and no: "\<not> (\<exists>b. \<forall>e \<in> set (activeEntities p d). entityInfo p (entity_id e) = selected_with b)"
  proof
    assume asf: "a \<and> s \<and> f \<noteq> JNull"
    then have "recalc_loop p (activeEntities p d) (True, True, JNull) = Inr (True, True, f)"
      using loop by simp
    from recalc_loop_implied_only_if [OF this be] asf
    show False using no by auto
  qed
  show ?thesis
    unfolding res using False agree other
    by (auto simp: ov'_def)
qed

theorem recalculateDeviceState_with_active_entities_witness:
  "activeEntities selected_panel ''d1'' \<noteq> [] \<and>
   (\<exists>p'. recalculateDeviceState selected_panel ''d1'' = Inr p' \<and>
      device_overrides (pendingConfig p') ''d1'' = Some (stored (JBool True) ''implied'')) \<and>
   activeEntities stale_panel ''d1'' \<noteq> [] \<and>
   (\<exists>p'. recalculateDeviceState stale_panel ''d1'' = Inr p' \<and>
      device_overrides (pendingConfig p') ''d1'' = None) \<and>
   activeEntities fresh_panel ''d1'' \<noteq> [] \<and>
   (\<exists>p'. recalculateDeviceState fresh_panel ''d1'' = Inr p' \<and>
      device_overrides (pendingConfig p') ''d1'' = None) \<and>
   activeEntities device_selected_panel ''d1'' \<noteq> [] \<and>
   recalculateDeviceState device_selected_panel ''d1'' = Inr device_selected_panel"
proof -
  have a: "activeEntities selected_panel ''d1'' = take 2 kitchen_entities"
    "activeEntities stale_panel ''d1'' = take 2 kitchen_entities"
    "activeEntities fresh_panel ''d1'' = take 2 kitchen_entities"
    "activeEntities device_selected_panel ''d1'' = take 2 kitchen_entities"
    by (simp_all add: fixture_defs eval_defs)
  have n: "activeEntities selected_panel ''d1'' \<noteq> []"
    "activeEntities stale_panel ''d1'' \<noteq> []"
    "activeEntities fresh_panel ''d1'' \<noteq> []"
    "activeEntities device_selected_panel ''d1'' \<noteq> []"
    unfolding a by (simp_all add: kitchen_entities_def)
  have i1: "\<not> is_selected (deviceInfo selected_panel ''d1'')"
    "\<forall>e \<in> set (activeEntities selected_panel ''d1'').
        entityInfo selected_panel (entity_id e) = selected_with True"
    unfolding a by (simp_all add: fixture_defs eval_defs)
  have i2: "\<not> is_selected (deviceInfo stale_panel ''d1'')"
    "is_implied (deviceInfo stale_panel ''d1'')"
    "boolean_exposes stale_panel (activeEntities stale_panel ''d1'')"
    "\<not> (\<exists>b. \<forall>e \<in> set (activeEntities stale_panel ''d1'').
        entityInfo stale_panel (entity_id e) = selected_with b)"
    unfolding a by (simp_all add: fixture_defs eval_defs boolean_exposes_def)
  have i3: "\<not> is_selected (deviceInfo fresh_panel ''d1'')"
    "device_overrides (pendingConfig fresh_panel) ''d1'' = None"
    "boolean_exposes fresh_panel (activeEntities fresh_panel ''d1'')"
    "\<not> (\<exists>b. \<forall>e \<in> set (activeEntities fresh_panel ''d1'').
        entityInfo fresh_panel (entity_id e) = selected_with b)"
    unfolding a by (auto simp add: fixture_defs eval_defs boolean_exposes_def)
  have i4: "is_selected (deviceInfo device_selected_panel ''d1'')"
    by (simp add: fixture_defs eval_defs)
  have 1: "\<exists>p'. recalculateDeviceState selected_panel ''d1'' = Inr p' \<and>
      device_overrides (pendingConfig p') ''d1'' = Some (stored (JBool True) ''implied'')"
    using recalculateDeviceState_with_active_entities [OF n(1)] i1 by blast
  have 2: "\<exists>p'. recalculateDeviceState stale_panel ''d1'' = Inr p' \<and>
      device_overrides (pendingConfig p') ''d1'' = None"
    using recalculateDeviceState_with_active_entities [OF n(2)] i2 by blast
  have 3: "\<exists>p'. recalculateDeviceState fresh_panel ''d1'' = Inr p' \<and>
      device_overrides (pendingConfig p') ''d1'' = None"
    using recalculateDeviceState_with_active_entities [OF n(3)] i3 by blast
  have 4: "recalculateDeviceState device_selected_panel ''d1'' = Inr device_selected_panel"
    using recalculateDeviceState_with_active_entities [OF n(4)] i4 by blast
  show ?thesis
    using n 1 2 3 4 by blast
qed

text \<open>
  Claim C3 as stated covers a device without any non-filtered owned entity. There the
  recomputation returns at once: an implied device is neither cleared nor set to the value
  \<^verbatim>\<open>false\<close>, on which its (zero) entities agree just as well.
\<close>

theorem recalculateDeviceState_zero_active_counterexample:
  "activeEntities hidden_panel ''d1'' = [] \<and>
   deviceInfo hidden_panel ''d1'' = implied_with True \<and>
   \<not> is_selected (deviceInfo hidden_panel ''d1'') \<and>
   recalculateDeviceState hidden_panel ''d1'' = Inr hidden_panel \<and>
   device_overrides (pendingConfig hidden_panel) ''d1'' \<noteq> None \<and>
   device_overrides (pendingConfig hidden_panel) ''d1'' \<noteq> Some (stored (JBool False) ''implied'')"
  by (simp add: recalculateDeviceState_def fixture_defs eval_defs)

section \<open>Filtered devices\<close>

text \<open>
  Claim C5, amended. The list \<^verbatim>\<open>filtered_devices\<close> plays no part in the recomputation: its
  result is the same whatever the list holds. The override of a filtered device is left
  unchanged by the recomputation, and by a button action on an owned entity, when the device
  is selected or has no non-filtered owned entity.
\<close>

theorem filtered_device_is_recomputed_like_any_other:
  assumes "isDeviceFiltered p d"
  shows "(is_selected (deviceInfo p d) \<or> activeEntities p d = [] \<longrightarrow>
            recalculateDeviceState p d = Inr p \<and>
            (owningDevice p k = Some d \<longrightarrow>
               (\<exists>p'. handleEntityButtonClick p k b = Inr p' \<and>
                  device_overrides (pendingConfig p') d = device_overrides (pendingConfig p) d))) \<and>
         recalculateDeviceState (p\<lparr>pendingConfig := (pendingConfig p)\<lparr>filtered_devices := fd\<rparr>\<rparr>) d =
           map_sum id (\<lambda>p'. p'\<lparr>pendingConfig := (pendingConfig p')\<lparr>filtered_devices := fd\<rparr>\<rparr>)
             (recalculateDeviceState p d)"
proof (intro conjI impI)
  assume c: "is_selected (deviceInfo p d) \<or> activeEntities p d = []"
  then show "recalculateDeviceState p d = Inr p"
    using recalculateDeviceState_selected recalculateDeviceState_no_active by blast
  assume o: "owningDevice p k = Some d"
  have "\<exists>p'. setEntityOverride p k ex ''selected'' = Inr p' \<and>
           device_overrides (pendingConfig p') d = device_overrides (pendingConfig p) d" for ex
    using setEntityOverride_effect [of p k ex "''selected''"] c o by auto
  then show "\<exists>p'. handleEntityButtonClick p k b = Inr p' \<and>
       device_overrides (pendingConfig p') d = device_overrides (pendingConfig p) d"
    by (simp add: handleEntityButtonClick_unfold)
next
  define q where "q = p\<lparr>pendingConfig := (pendingConfig p)\<lparr>filtered_devices := fd\<rparr>\<rparr>"
  have act: "activeEntities q d = activeEntities p d"
    by (simp add: q_def activeEntities_def isEntityFiltered_def)
  have dv: "getDeviceOverrideInfo q d = getDeviceOverrideInfo p d"
    by (simp add: q_def getDeviceOverrideInfo_def)
  have lp: "recalc_loop q es (True, True, JNull) = recalc_loop p es (True, True, JNull)" for es
    by (rule recalc_loop_cong) (simp add: q_def)
  have "recalculateDeviceState q d =
      map_sum id (\<lambda>p'. p'\<lparr>pendingConfig := (pendingConfig p')\<lparr>filtered_devices := fd\<rparr>\<rparr>)
             (recalculateDeviceState p d)"
    unfolding recalculateDeviceState_def act dv lp
    by (simp add: q_def Let_def split: sum.splits option.splits prod.splits)
  then show "recalculateDeviceState (p\<lparr>pendingConfig := (pendingConfig p)\<lparr>filtered_devices := fd\<rparr>\<rparr>) d =
           map_sum id (\<lambda>p'. p'\<lparr>pendingConfig := (pendingConfig p')\<lparr>filtered_devices := fd\<rparr>\<rparr>)
             (recalculateDeviceState p d)"
    by (simp add: q_def)
qed

theorem filtered_device_witness:
  "isDeviceFiltered hidden_panel ''d1'' \<and>
   activeEntities hidden_panel ''d1'' = [] \<and>
   recalculateDeviceState hidden_panel ''d1'' = Inr hidden_panel \<and>
   owningDevice hidden_panel ''light.b'' = Some ''d1'' \<and>
   (\<exists>p'. handleEntityButtonClick hidden_panel ''light.b'' False = Inr p' \<and>
      device_overrides (pendingConfig p') ''d1'' = Some (stored (JBool True) ''implied''))"
proof -
  have f: "isDeviceFiltered hidden_panel ''d1''"
    by (simp add: fixture_defs eval_defs)
  have a: "activeEntities hidden_panel ''d1'' = []"
    by (simp add: fixture_defs eval_defs)
  have o: "owningDevice hidden_panel ''light.b'' = Some ''d1''"
    by (simp add: fixture_defs eval_defs)
  have d: "device_overrides (pendingConfig hidden_panel) ''d1'' = Some (stored (JBool True) ''implied'')"
    by (simp add: fixture_defs)
  show ?thesis
    using filtered_device_is_recomputed_like_any_other [OF f, of "''light.b''" False] f a o d
    by simp
qed

text \<open>
  Claim C5 as stated fails: \<open>d1\<close> is filtered and unset, its entity \<open>light.b\<close> is
  selected; selecting \<open>light.a\<close> with the same value makes \<open>d1\<close> implied.
\<close>

theorem filtered_device_counterexample:
  "isDeviceFiltered hidden_device_panel ''d1'' \<and>
   owningDevice hidden_device_panel ''light.a'' = Some ''d1'' \<and>
   device_overrides (pendingConfig hidden_device_panel) ''d1'' = None \<and>
   (case handleEntityButtonClick hidden_device_panel ''light.a'' True of
      Inl err \<Rightarrow> None
    | Inr p' \<Rightarrow> device_overrides (pendingConfig p') ''d1'') =
     Some (stored (JBool True) ''implied'')"
  by (simp add: handleEntityButtonClick_def setEntityOverride_def recalculateDeviceState_def
        fixture_defs eval_defs)

section \<open>Properties of the auto-alias pass\<close>

lemma length_generateAliasSuggestions:
  "length (generateAliasSuggestions baseName existingAliases n) \<le> n"
  by (simp add: generateAliasSuggestions_def Let_def)

lemma split_ws_from_nonempty: "split_ws_from cur in_run s \<noteq> []"
  by (induction s arbitrary: cur in_run) auto

lemma split_on_from_nonempty: "split_on_from sep cur s \<noteq> []"
  by (induction s arbitrary: cur) auto

lemma split_on_from_two:
  "sep \<in> set s \<Longrightarrow> \<exists>a b rest. split_on_from sep cur s = a # b # rest"
proof (induction s arbitrary: cur)
  case Nil
  then show ?case by simp
next
  case (Cons c cs)
  show ?case
  proof (cases "c = sep")
    case True
    obtain b rest where "split_on_from sep [] cs = b # rest"
      using split_on_from_nonempty [of sep "[]" cs] by (cases "split_on_from sep [] cs") auto
    then show ?thesis using True by simp
  next
    case False
    then have "sep \<in> set cs" using Cons.prems by auto
    from Cons.IH [OF this, of "c # cur"] show ?thesis using False by simp
  qed
qed

lemma baseName_of_dotted:
  "CHR ''.'' \<in> set entityId \<Longrightarrow> \<exists>b. baseName_of existingConfig ent entityId = Inr b"
proof -
  assume "CHR ''.'' \<in> set entityId"
  then obtain a b rest where "split_on (CHR ''.'') entityId = a # b # rest"
    unfolding split_on_def using split_on_from_two by blast
  then show ?thesis
    by (simp add: baseName_of_def split: option.splits list.splits)
qed

lemma autoAliases_loop_returns:
  "\<forall>k \<in> set xs. CHR ''.'' \<in> set k \<Longrightarrow> \<exists>ec'. autoAliases_loop p xs ec = Inr ec'"
proof (induction xs arbitrary: ec)
  case Nil
  show ?case by simp
next
  case (Cons x xs)
  have rest: "\<exists>ec'. autoAliases_loop p xs ec1 = Inr ec'" for ec1
    using Cons.IH [of ec1] Cons.prems by simp
  have dot: "CHR ''.'' \<in> set x" using Cons.prems by simp
  show ?case
  proof (cases "find (\<lambda>e. entity_id e = x) (entities p)")
    case None
    then show ?thesis using rest by (simp add: Let_def)
  next
    case (Some ent)
    obtain b where "baseName_of (config_or_empty (ec x)) ent x = Inr b"
      using baseName_of_dotted [OF dot] by blast
    then show ?thesis using rest Some by (simp add: Let_def)
  qed
qed

lemma autoAliases_loop_effect:
  assumes "autoAliases_loop p xs ec = Inr ec'"
  shows "ec' k = ec k \<or>
         (k \<in> set xs \<and> \<not> has_aliases (config_or_empty (ec k)) \<and>
          (\<exists>as. as \<noteq> [] \<and> length as \<le> 5 \<and>
                ec' k = Some ((config_or_empty (ec k))\<lparr>cfg_aliases := Some as\<rparr>)))"
  using assms
proof (induction xs arbitrary: ec)
  case Nil
  then show ?case by simp
next
  case (Cons x xs)
  let ?existing = "config_or_empty (ec x)"
  have keep: ?case if "autoAliases_loop p xs ec = Inr ec'"
    using Cons.IH [OF that] by auto
  show ?case
  proof (cases "has_aliases ?existing")
    case True
    then show ?thesis using Cons.prems keep by (simp add: Let_def)
  next
    case noal: False
    show ?thesis
    proof (cases "find (\<lambda>e. entity_id e = x) (entities p)")
      case None
      then show ?thesis using Cons.prems keep noal by (simp add: Let_def)
    next
      case (Some ent)
      show ?thesis
      proof (cases "baseName_of ?existing ent x")
        case (Inl err)
        then show ?thesis using Cons.prems noal Some by (simp add: Let_def)
      next
        case (Inr baseName)
        let ?sugg = "generateAliasSuggestions baseName [] 5"
        show ?thesis
        proof (cases "?sugg = []")
          case True
          then show ?thesis using Cons.prems keep noal Some Inr by (simp add: Let_def)
        next
          case False
          let ?ec1 = "ec(x \<mapsto> ?existing\<lparr>cfg_aliases := Some ?sugg\<rparr>)"
          have run: "autoAliases_loop p xs ?ec1 = Inr ec'"
            using Cons.prems noal Some Inr False by (simp add: Let_def)
          note IH = Cons.IH [OF run]
          show ?thesis
          proof (cases "k = x")
            case True
            have "has_aliases (config_or_empty (?ec1 k))"
              using True False by (simp add: has_aliases_def config_or_empty_def)
            then have "ec' k = ?ec1 k" using IH by blast
            then show ?thesis
              using True noal False length_generateAliasSuggestions [of baseName "[]" 5]
              by auto
          next
            case False
            then show ?thesis using IH by auto
          qed
        qed
      qed
    qed
  qed
qed

text \<open>
  Claim C10. With \<^verbatim>\<open>auto_aliases\<close> set to \<^verbatim>\<open>false\<close> the pass returns the
  configuration as it is. Whenever it returns, nothing but \<^verbatim>\<open>entity_config\<close> differs, the
  entry of an entity that has a non-empty alias list is unchanged, and an entry that differs
  belongs to an exposed entity without aliases and is the old entry with between one and five
  generated aliases. The pass returns when every exposed identifier contains a dot.
\<close>

theorem auto_aliases_preserve_manual_configuration:
  "(auto_aliases c = JBool False \<longrightarrow> applyAutoAliases p c = Inr c) \<and>
   (\<forall>c'. applyAutoAliases p c = Inr c' \<longrightarrow>
      c'\<lparr>entity_config := entity_config c\<rparr> = c \<and>
      (\<forall>k. has_aliases (config_or_empty (entity_config c k)) \<longrightarrow>
           entity_config c' k = entity_config c k) \<and>
      (\<forall>k. entity_config c' k \<noteq> entity_config c k \<longrightarrow>
           auto_aliases c \<noteq> JBool False \<and> k \<in> set (exposedEntities p) \<and>
           \<not> has_aliases (config_or_empty (entity_config c k)) \<and>
           (\<exists>as. as \<noteq> [] \<and> length as \<le> 5 \<and>
              entity_config c' k =
                Some ((config_or_empty (entity_config c k))\<lparr>cfg_aliases := Some as\<rparr>)))) \<and>
   ((\<forall>k \<in> set (exposedEntities p). CHR ''.'' \<in> set k) \<longrightarrow>
      (\<exists>c'. applyAutoAliases p c = Inr c'))"
proof -
  have off: "applyAutoAliases p c = Inr c" if "auto_aliases c = JBool False"
    using that by (simp add: applyAutoAliases_def)
  have shape: "c' = c \<or> (auto_aliases c \<noteq> JBool False \<and>
      (\<exists>ec. autoAliases_loop p (exposedEntities p) (entity_config c) = Inr ec \<and>
            c' = c\<lparr>entity_config := ec\<rparr>))"
    if "applyAutoAliases p c = Inr c'" for c'
    using that
    by (auto simp: applyAutoAliases_def exposedEntities_def Let_def
          split: if_splits sum.splits)
  have rest: "c'\<lparr>entity_config := entity_config c\<rparr> = c"
    if "applyAutoAliases p c = Inr c'" for c'
    using shape [OF that] by auto
  have eff: "entity_config c' k = entity_config c k \<or>
     (auto_aliases c \<noteq> JBool False \<and> k \<in> set (exposedEntities p) \<and>
      \<not> has_aliases (config_or_empty (entity_config c k)) \<and>
      (\<exists>as. as \<noteq> [] \<and> length as \<le> 5 \<and>
         entity_config c' k =
           Some ((config_or_empty (entity_config c k))\<lparr>cfg_aliases := Some as\<rparr>)))"
    if r: "applyAutoAliases p c = Inr c'" for c' k
  proof (cases "c' = c")
    case True
    then show ?thesis by simp
  next
    case False
    then obtain ec where aa: "auto_aliases c \<noteq> JBool False"
      and l: "autoAliases_loop p (exposedEntities p) (entity_config c) = Inr ec"
      and c': "c' = c\<lparr>entity_config := ec\<rparr>"
      using shape [OF r] by blast
    show ?thesis
      using autoAliases_loop_effect [OF l, of k] aa by (simp add: c')
  qed
  have ret: "\<exists>c'. applyAutoAliases p c = Inr c'"
    if "\<forall>k \<in> set (exposedEntities p). CHR ''.'' \<in> set k"
    using autoAliases_loop_returns [OF that, of p "entity_config c"]
    by (auto simp: applyAutoAliases_def exposedEntities_def Let_def)
  show ?thesis
    using off rest eff ret by blast
qed

text \<open>
  The generated aliases of \<^verbatim>\<open>Kitchen Light\<close>, and the pass on the example panel.
\<close>

lemma kitchen_light_suggestions:
  "generateAliasSuggestions ''Kitchen Light'' [] 5 =
     [''Kitchen Lights'', ''Kitchen lamp'', ''Kitchen lights'', ''the Kitchen Light'']"
  by code_simp

lemma alias_panel_run:
  "(case applyAutoAliases alias_panel alias_config of
      Inl err \<Rightarrow> None
    | Inr c' \<Rightarrow> entity_config c' ''light.a'') =
   Some \<lparr>cfg_name = None,
         cfg_aliases = Some [''Kitchen Lights'', ''Kitchen lamp'', ''Kitchen lights'',
                             ''the Kitchen Light''],
         cfg_room = None\<rparr>"
  by (simp add: applyAutoAliases_def alias_panel_def alias_config_def kitchen_entities_def
        config_or_empty_def has_aliases_def baseName_of_def kitchen_light_suggestions Let_def)

theorem auto_aliases_witness:
  "applyAutoAliases alias_panel (alias_config\<lparr>auto_aliases := JBool False\<rparr>) =
     Inr (alias_config\<lparr>auto_aliases := JBool False\<rparr>) \<and>
   (\<exists>c'. applyAutoAliases alias_panel alias_config = Inr c' \<and>
      entity_config c' ''light.b'' = entity_config alias_config ''light.b'' \<and>
      entity_config c' ''light.a'' \<noteq> entity_config alias_config ''light.a'' \<and>
      (\<exists>as. as \<noteq> [] \<and> length as \<le> 5 \<and>
         entity_config c' ''light.a'' =
           Some \<lparr>cfg_name = None, cfg_aliases = Some as, cfg_room = None\<rparr>))"
proof -
  have dots: "\<forall>k \<in> set (exposedEntities alias_panel). CHR ''.'' \<in> set k"
    by (simp add: exposedEntities_def alias_panel_def)
  have b: "has_aliases (config_or_empty (entity_config alias_config ''light.b''))"
    by (simp add: has_aliases_def config_or_empty_def alias_config_def)
  have a: "config_or_empty (entity_config alias_config ''light.a'') =
      \<lparr>cfg_name = None, cfg_aliases = None, cfg_room = None\<rparr>"
    "entity_config alias_config ''light.a'' = None"
    by (simp_all add: config_or_empty_def alias_config_def)
  note main = auto_aliases_preserve_manual_configuration [of alias_config alias_panel]
  obtain c' where r: "applyAutoAliases alias_panel alias_config = Inr c'"
    using main [THEN conjunct2, THEN conjunct2] dots by blast
  note props = main [THEN conjunct2, THEN conjunct1, rule_format, OF r]
  have changed: "entity_config c' ''light.a'' \<noteq> entity_config alias_config ''light.a''"
    using alias_panel_run by (simp add: r a)
  have keep: "entity_config c' ''light.b'' = entity_config alias_config ''light.b''"
    using props [THEN conjunct2, THEN conjunct1, rule_format, OF b] .
  have new: "\<exists>as. as \<noteq> [] \<and> length as \<le> 5 \<and>
         entity_config c' ''light.a'' =
           Some \<lparr>cfg_name = None, cfg_aliases = Some as, cfg_room = None\<rparr>"
    using props [THEN conjunct2, THEN conjunct2, rule_format, OF changed]
    by (simp add: a config_or_empty_def)
  have off: "applyAutoAliases alias_panel (alias_config\<lparr>auto_aliases := JBool False\<rparr>) =
     Inr (alias_config\<lparr>auto_aliases := JBool False\<rparr>)"
    using auto_aliases_preserve_manual_configuration
            [of "alias_config\<lparr>auto_aliases := JBool False\<rparr>" alias_panel,
             THEN conjunct1]
    by simp
  show ?thesis
    using off r changed keep new by blast
qed

end
